theory Spec2Isabelle
  imports Main "HOL-Library.Sublist" "HOL-Library.AList"
begin

section \<open>Python values used by the controller\<close>

text \<open>
  Exceptions are values. \<open>RpcFault\<close> stands for whatever the control-plane client
  raises when a request cannot be issued; the other constructors are the Python
  exception classes the sources raise or provoke, with their message.
\<close>

datatype exn =
    ValueError string
  | FileNotFoundError string
  | ConnectionError string
  | ConnectionRefusedError string
  | AttributeError
  | TypeError
  | RpcFault

text \<open>
  Strings are lists of 8-bit characters; a Python \<open>str\<close> is modelled on the code points
  below 256. \<open>str.strip()\<close> drops the characters for which \<open>str.isspace()\<close> holds from
  both ends; below 256 these are the code points 9-13, 28-32, 133 and 160.
\<close>

definition isspace :: "char \<Rightarrow> bool" where
  "isspace c = (let n = (of_char c :: nat) in
     (9 \<le> n \<and> n \<le> 13) \<or> (28 \<le> n \<and> n \<le> 32) \<or> n = 133 \<or> n = 160)"

definition strip :: "string \<Rightarrow> string" where
  "strip s = rev (dropWhile isspace (rev (dropWhile isspace s)))"

definition startswith :: "string \<Rightarrow> string \<Rightarrow> bool" where
  "startswith s p = prefix p s"

text \<open>\<open>contains s t\<close> is Python's \<open>t in s\<close> on strings.\<close>

definition contains :: "string \<Rightarrow> string \<Rightarrow> bool" where
  "contains s t = sublist t s"

text \<open>
  The documents that \<open>xmltodict.parse\<close> returns: nested dictionaries (in key order),
  lists, strings and \<open>None\<close>.
\<close>

datatype pyval =
    PNone
  | PStr string
  | PDict "(string \<times> pyval) list"
  | PList "pyval list"

fun truthy :: "pyval \<Rightarrow> bool" where
  "truthy PNone = False"
| "truthy (PStr s) = (s \<noteq> [])"
| "truthy (PDict kvs) = (kvs \<noteq> [])"
| "truthy (PList xs) = (xs \<noteq> [])"

text \<open>\<open>d.get(k)\<close> on a dictionary: \<open>None\<close> when the key is absent.\<close>

definition dict_get :: "(string \<times> pyval) list \<Rightarrow> string \<Rightarrow> pyval" where
  "dict_get kvs k = (case map_of kvs k of None \<Rightarrow> PNone | Some v \<Rightarrow> v)"

section \<open>The control-plane client\<close>

text \<open>
  Modelled from the spec: the module \<open>powder.rpc\<close> is not part of the sources. Its four
  operations return a result code and a payload; the result codes distinguish at least
  success, bad arguments and a generic error. The payload is \<open>None\<close> or a dictionary,
  of which the controller reads the key \<open>output\<close> only.
\<close>

datatype rpc_code = RESPONSE_SUCCESS | RESPONSE_BADARGS | RESPONSE_ERROR | RESPONSE_OTHER nat

datatype response = Resp_None | Resp_Dict "(string \<times> string) list"

datatype rpc_call =
    Start_experiment string string string
  | Terminate_experiment string string
  | Get_experiment_status string string
  | Get_experiment_manifests string string

datatype rpc_result = Rpc_raises | Rpc_returns rpc_code response

text \<open>
  What the process does to the outside world, in order: the requests it issues and the
  seconds it sleeps. The control plane answers a request knowing everything that
  happened before it.
\<close>

datatype event = Rpc rpc_call | Sleep nat

type_synonym world = "event list"

type_synonym rpc_env = "world \<Rightarrow> rpc_call \<Rightarrow> rpc_result"

definition call_rpc :: "rpc_env \<Rightarrow> rpc_call \<Rightarrow> world \<Rightarrow> rpc_result \<times> world" where
  "call_rpc env c w = (env w c, w @ [Rpc c])"

text \<open>\<open>bool(response)\<close> and \<open>response.get('output', dflt)\<close> on a dictionary payload.\<close>

fun response_truthy :: "response \<Rightarrow> bool" where
  "response_truthy Resp_None = False"
| "response_truthy (Resp_Dict kvs) = (kvs \<noteq> [])"

definition output_or :: "(string \<times> string) list \<Rightarrow> string \<Rightarrow> string" where
  "output_or kvs dflt = (case map_of kvs ''output'' of None \<Rightarrow> dflt | Some t \<Rightarrow> t)"

text \<open>
  \<open>json.loads\<close> followed by \<open>xmltodict.parse\<close> on every value is a parameter: a decoder
  from the payload's output text to the list of parsed documents, \<open>None\<close> when either
  library raises.
\<close>

type_synonym decoder = "string \<Rightarrow> pyval list option"

section \<open>The experiment controller (powder/experiment.py)\<close>

datatype exp_status =
    EXPERIMENT_NOT_STARTED
  | EXPERIMENT_PROVISIONING
  | EXPERIMENT_PROVISIONED
  | EXPERIMENT_READY
  | EXPERIMENT_FAILED
  | EXPERIMENT_NULL
  | EXPERIMENT_UNKNOWN

definition POLL_INTERVAL_S :: nat where "POLL_INTERVAL_S = 20"
definition PROVISION_TIMEOUT_S :: nat where "PROVISION_TIMEOUT_S = 1800"
definition MAX_NAME_LENGTH :: nat where "MAX_NAME_LENGTH = 16"

record Node =
  client_id :: string
  ip_address :: pyval
  hostname :: pyval

text \<open>
  The registry \<open>self.nodes\<close> is a Python dictionary: an association list in insertion
  order, where storing under a key that is present replaces the value in place.
\<close>

type_synonym registry = "(string \<times> Node) list"

record PowderExperiment =
  experiment_name :: string
  project_name :: string
  profile_name :: string
  status :: exp_status
  nodes :: registry
  manifests :: "pyval list option"
  poll_count_max :: nat

definition init :: "string \<Rightarrow> string \<Rightarrow> string \<Rightarrow> exn + PowderExperiment" where
  "init name project profile =
     (if length name > MAX_NAME_LENGTH
      then Inl (ValueError (''Experiment name \"'' @ name @ ''\" exceeds max length (16)''))
      else Inr \<lparr> experiment_name = name, project_name = project, profile_name = profile,
                 status = EXPERIMENT_NOT_STARTED, nodes = [], manifests = None,
                 poll_count_max = PROVISION_TIMEOUT_S div POLL_INTERVAL_S \<rparr>)"

subsection \<open>Manifest retrieval and parsing\<close>

text \<open>
  \<open>_get_manifests\<close>. On a success code everything from reading \<open>response['output']\<close>
  to the XML parsing runs inside a \<open>try\<close> whose handlers store \<open>None\<close>; on any other
  code the log call reads \<open>response.get\<close>, which raises on a \<open>None\<close> payload before
  the cache is touched.
\<close>

definition get_manifests ::
  "rpc_env \<Rightarrow> decoder \<Rightarrow> world \<Rightarrow> PowderExperiment \<Rightarrow> (exn + unit) \<times> world \<times> PowderExperiment" where
  "get_manifests env dec w s =
     (case call_rpc env (Get_experiment_manifests (project_name s) (experiment_name s)) w of
        (Rpc_raises, w1) \<Rightarrow> (Inl RpcFault, w1, s)
      | (Rpc_returns rval resp, w1) \<Rightarrow>
          (if rval = RESPONSE_SUCCESS
           then (case resp of
                   Resp_None \<Rightarrow> (Inr (), w1, s\<lparr>manifests := None\<rparr>)
                 | Resp_Dict kvs \<Rightarrow>
                     (case map_of kvs ''output'' of
                        None \<Rightarrow> (Inr (), w1, s\<lparr>manifests := None\<rparr>)
                      | Some out \<Rightarrow> (Inr (), w1, s\<lparr>manifests := dec out\<rparr>)))
           else (case resp of
                   Resp_None \<Rightarrow> (Inl AttributeError, w1, s)
                 | Resp_Dict kvs \<Rightarrow> (Inr (), w1, s\<lparr>manifests := None\<rparr>))))"

text \<open>
  The host descriptor of a node entry: of a list, the first dictionary with a true
  \<open>@ipv4\<close>; a dictionary itself; otherwise \<open>None\<close>.
\<close>

definition select_host :: "pyval \<Rightarrow> (string \<times> pyval) list option" where
  "select_host host_data =
     (case host_data of
        PList hs \<Rightarrow>
          (case find (\<lambda>h. case h of PDict kvs \<Rightarrow> truthy (dict_get kvs ''@ipv4'') | _ \<Rightarrow> False) hs of
             Some (PDict kvs) \<Rightarrow> Some kvs
           | _ \<Rightarrow> None)
      | PDict kvs \<Rightarrow> Some kvs
      | _ \<Rightarrow> None)"

text \<open>
  One round of the loop over node entries. Storing under a client identifier that is not
  a string (a non-empty dictionary or list is true but unhashable) raises \<open>TypeError\<close>.
\<close>

definition parse_node_entry :: "pyval \<Rightarrow> registry \<Rightarrow> exn + registry" where
  "parse_node_entry node_entry reg =
     (case node_entry of
        PDict kvs \<Rightarrow>
          (let cid = dict_get kvs ''@client_id'';
               host_dict = select_host (dict_get kvs ''host'')
           in if \<not> truthy cid then Inr reg
              else (case host_dict of
                      None \<Rightarrow> Inr reg
                    | Some hkvs \<Rightarrow>
                        (if hkvs = [] then Inr reg
                         else (let hostname_v = dict_get hkvs ''@name'';
                                   ipv4 = dict_get hkvs ''@ipv4''
                               in if \<not> truthy hostname_v \<or> \<not> truthy ipv4 then Inr reg
                                  else (case cid of
                                          PStr c \<Rightarrow>
                                            Inr (AList.update c
                                                  \<lparr>client_id = c, ip_address = ipv4, hostname = hostname_v\<rparr> reg)
                                        | _ \<Rightarrow> Inl TypeError)))))
      | _ \<Rightarrow> Inr reg)"

fun parse_node_entries :: "pyval list \<Rightarrow> registry \<Rightarrow> exn option \<times> registry" where
  "parse_node_entries [] reg = (None, reg)"
| "parse_node_entries (e # es) reg =
     (case parse_node_entry e reg of
        Inl x \<Rightarrow> (Some x, reg)
      | Inr reg1 \<Rightarrow> parse_node_entries es reg1)"

text \<open>
  The body of the loop over manifests. It runs inside a \<open>try\<close> that logs any exception
  and goes on with the next manifest, so what was stored before the exception stays:
  \<open>.get\<close> on a value that is no dictionary raises \<open>AttributeError\<close>.
\<close>

definition parse_manifest :: "pyval \<Rightarrow> registry \<Rightarrow> registry" where
  "parse_manifest manifest reg =
     (case manifest of
        PDict kvs \<Rightarrow>
          (let rspec_data = dict_get kvs ''rspec''
           in if \<not> truthy rspec_data then reg
              else (case rspec_data of
                      PDict rkvs \<Rightarrow>
                        (let nodes_data = dict_get rkvs ''node''
                         in if \<not> truthy nodes_data then reg
                            else snd (parse_node_entries
                                        (case nodes_data of PList xs \<Rightarrow> xs | _ \<Rightarrow> [nodes_data]) reg))
                    | _ \<Rightarrow> reg))
      | _ \<Rightarrow> reg)"

definition parse_manifests :: "PowderExperiment \<Rightarrow> PowderExperiment" where
  "parse_manifests s =
     (case manifests s of
        None \<Rightarrow> s
      | Some ms \<Rightarrow>
          (if ms = [] then s
           else s\<lparr>nodes := foldl (\<lambda>reg m. parse_manifest m reg) [] ms\<rparr>))"

subsection \<open>Status refresh\<close>

text \<open>
  The first test of \<open>_get_status\<close>: the result says that the experiment does not
  exist. \<open>response.get\<close> is reached only behind \<open>response and\<close>, on a dictionary.
\<close>

definition no_such_experiment :: "rpc_code \<Rightarrow> response \<Rightarrow> bool" where
  "no_such_experiment rval resp =
     (rval = RESPONSE_BADARGS \<or>
      (rval = RESPONSE_ERROR \<and> response_truthy resp \<and>
       (case resp of
          Resp_None \<Rightarrow> False
        | Resp_Dict kvs \<Rightarrow> contains (output_or kvs []) ''No such experiment'')))"

text \<open>The closing \<open>if previous_status != new_status\<close> of \<open>_get_status\<close>.\<close>

definition update_status :: "exp_status \<Rightarrow> exp_status \<Rightarrow> PowderExperiment \<Rightarrow> PowderExperiment" where
  "update_status previous_status new_status s =
     (if previous_status \<noteq> new_status then s\<lparr>status := new_status\<rparr> else s)"

text \<open>
  The branch of \<open>_get_status\<close> for an output that starts with \<open>Status: ready\<close>: it
  yields \<open>new_status\<close>, after fetching and parsing the manifests when the experiment
  was not Ready before or the registry is empty.
\<close>

definition ready_new_status ::
  "rpc_env \<Rightarrow> decoder \<Rightarrow> world \<Rightarrow> PowderExperiment \<Rightarrow> exp_status \<times> world \<times> PowderExperiment" where
  "ready_new_status env dec w s =
     (if status s \<noteq> EXPERIMENT_READY \<or> nodes s = []
      then (case get_manifests env dec w s of
              (Inl e, w1, s1) \<Rightarrow> (EXPERIMENT_FAILED, w1, s1)
            | (Inr u, w1, s1) \<Rightarrow>
                (let s2 = parse_manifests s1
                 in if nodes s2 = [] then (EXPERIMENT_FAILED, w1, s2)
                    else (EXPERIMENT_READY, w1, s2)))
      else (EXPERIMENT_READY, w, s))"

text \<open>The remaining branches of the same chain, which only read the output.\<close>

definition other_new_status :: "string \<Rightarrow> exp_status" where
  "other_new_status out =
     (if startswith out ''Status: provisioning'' then EXPERIMENT_PROVISIONING
      else if startswith out ''Status: provisioned'' then EXPERIMENT_PROVISIONED
      else if startswith out ''Status: failed'' then EXPERIMENT_FAILED
      else if contains out ''UUID:'' \<or> contains out ''creating image'' \<or> contains out ''booting''
      then EXPERIMENT_PROVISIONING
      else EXPERIMENT_UNKNOWN)"

definition get_status ::
  "rpc_env \<Rightarrow> decoder \<Rightarrow> world \<Rightarrow> PowderExperiment \<Rightarrow> (exn + unit) \<times> world \<times> PowderExperiment" where
  "get_status env dec w s =
     (case call_rpc env (Get_experiment_status (project_name s) (experiment_name s)) w of
        (Rpc_raises, w1) \<Rightarrow> (Inl RpcFault, w1, s)
      | (Rpc_returns rval resp, w1) \<Rightarrow>
          (if no_such_experiment rval resp
           then (Inr (), w1,
                 if status s \<noteq> EXPERIMENT_NULL
                 then s\<lparr>status := EXPERIMENT_NULL, nodes := [], manifests := None\<rparr> else s)
           else if rval \<noteq> RESPONSE_SUCCESS
           then (Inr (), w1,
                 if status s \<noteq> EXPERIMENT_UNKNOWN then s\<lparr>status := EXPERIMENT_UNKNOWN\<rparr> else s)
           else (case resp of
                   Resp_None \<Rightarrow> (Inl AttributeError, w1, s)
                 | Resp_Dict kvs \<Rightarrow>
                     (let out = strip (output_or kvs []); previous_status = status s
                      in (case (if startswith out ''Status: ready''
                                then ready_new_status env dec w1 s
                                else (other_new_status out, w1, s)) of
                            (new_status, w2, s2) \<Rightarrow>
                              (Inr (), w2, update_status previous_status new_status s2))))))"

definition check_status ::
  "rpc_env \<Rightarrow> decoder \<Rightarrow> world \<Rightarrow> PowderExperiment \<Rightarrow> (exn + exp_status) \<times> world \<times> PowderExperiment" where
  "check_status env dec w s =
     (case get_status env dec w s of
        (Inl e, w1, s1) \<Rightarrow> (Inl e, w1, s1)
      | (Inr u, w1, s1) \<Rightarrow> (Inr (status s1), w1, s1))"

subsection \<open>terminate\<close>

definition terminate ::
  "rpc_env \<Rightarrow> world \<Rightarrow> PowderExperiment \<Rightarrow> (exn + exp_status) \<times> world \<times> PowderExperiment" where
  "terminate env w s =
     (case call_rpc env (Terminate_experiment (project_name s) (experiment_name s)) w of
        (Rpc_raises, w1) \<Rightarrow> (Inl RpcFault, w1, s)
      | (Rpc_returns rval resp, w1) \<Rightarrow>
          (if rval = RESPONSE_SUCCESS
           then (let s1 = s\<lparr>status := EXPERIMENT_NULL, nodes := [], manifests := None\<rparr>
                 in (Inr (status s1), w1, s1))
           else (Inr (status s), w1, s)))"

subsection \<open>start\_and\_wait\<close>

text \<open>
  The block that \<open>start_and_wait\<close> runs twice on a Ready experiment, once after the
  first status check and once in the final evaluation: with an empty registry the
  manifests are fetched and parsed again, and an empty result or an exception marks the
  experiment as failed.
\<close>

definition reload_nodes ::
  "rpc_env \<Rightarrow> decoder \<Rightarrow> world \<Rightarrow> PowderExperiment \<Rightarrow> world \<times> PowderExperiment" where
  "reload_nodes env dec w s =
     (if nodes s = []
      then (case get_manifests env dec w s of
              (Inl e, w1, s1) \<Rightarrow> (w1, s1\<lparr>status := EXPERIMENT_FAILED\<rparr>)
            | (Inr u, w1, s1) \<Rightarrow>
                (let s2 = parse_manifests s1
                 in if nodes s2 = [] then (w1, s2\<lparr>status := EXPERIMENT_FAILED\<rparr>) else (w1, s2)))
      else (w, s))"

text \<open>The polling loop; \<open>poll_count\<close> is the local counter of the source.\<close>

function poll_loop ::
  "rpc_env \<Rightarrow> decoder \<Rightarrow> nat \<Rightarrow> world \<Rightarrow> PowderExperiment \<Rightarrow> (exn + nat) \<times> world \<times> PowderExperiment" where
  "poll_loop env dec poll_count w s =
     (if status s \<in> set [EXPERIMENT_PROVISIONING, EXPERIMENT_PROVISIONED,
                          EXPERIMENT_NOT_STARTED, EXPERIMENT_UNKNOWN]
         \<and> poll_count < poll_count_max s
      then (case get_status env dec (w @ [Sleep POLL_INTERVAL_S]) s of
              (Inl e, w1, s1) \<Rightarrow> (Inl e, w1, s1)
            | (Inr u, w1, s1) \<Rightarrow> poll_loop env dec (poll_count + 1) w1 s1)
      else (Inr poll_count, w, s))"
  by pat_completeness auto
termination
proof (relation "measure (\<lambda>(env, dec, poll_count, w, s). poll_count_max s - poll_count)")
  show "wf (measure (\<lambda>(env, dec, poll_count, w, s). poll_count_max s - poll_count))"
    by simp
next
  fix env :: rpc_env and dec :: decoder and poll_count :: nat and w :: world
    and s :: PowderExperiment and x :: "exn + unit" and y :: "world \<times> PowderExperiment"
    and u :: unit and w1 :: world and s1 :: PowderExperiment
  assume run: "status s \<in> set [EXPERIMENT_PROVISIONING, EXPERIMENT_PROVISIONED,
                                 EXPERIMENT_NOT_STARTED, EXPERIMENT_UNKNOWN]
               \<and> poll_count < poll_count_max s"
    and res: "(x, y) = get_status env dec (w @ [Sleep POLL_INTERVAL_S]) s" "x = Inr u" "(w1, s1) = y"
  have gm: "poll_count_max (snd (snd (get_manifests env dec w0 s0))) = poll_count_max s0" for w0 s0
    by (simp add: get_manifests_def call_rpc_def
             split: rpc_result.split response.split option.split)
  have pm: "poll_count_max (parse_manifests s0) = poll_count_max s0" for s0
    by (simp add: parse_manifests_def split: option.split)
  have rn: "poll_count_max (snd (snd (ready_new_status env dec w0 s0))) = poll_count_max s0" for w0 s0
    using gm [of w0 s0]
    by (auto simp: ready_new_status_def Let_def pm split: prod.split sum.split)
  have us: "poll_count_max (update_status p n s0) = poll_count_max s0" for p n s0
    by (simp add: update_status_def)
  have "poll_count_max (snd (snd (get_status env dec w0 s))) = poll_count_max s" for w0
    using rn [of "w0 @ [Rpc (Get_experiment_status (project_name s) (experiment_name s))]" s]
    by (auto simp: get_status_def call_rpc_def Let_def us
             split: rpc_result.split response.split prod.split)
  from this [of "w @ [Sleep POLL_INTERVAL_S]"] res have "poll_count_max s1 = poll_count_max s"
    by (metis snd_conv)
  with run show "((env, dec, poll_count + 1, w1, s1), (env, dec, poll_count, w, s))
        \<in> measure (\<lambda>(env, dec, poll_count, w, s). poll_count_max s - poll_count)"
    by auto
qed

text \<open>
  The final evaluation after the loop. A state that is neither Ready nor Failed here
  is a timeout: it becomes Failed unless it is Null.
\<close>

definition final_evaluation ::
  "rpc_env \<Rightarrow> decoder \<Rightarrow> world \<Rightarrow> PowderExperiment \<Rightarrow> (exn + exp_status) \<times> world \<times> PowderExperiment" where
  "final_evaluation env dec w s =
     (if status s = EXPERIMENT_READY
      then (case reload_nodes env dec w s of (w1, s1) \<Rightarrow> (Inr (status s1), w1, s1))
      else if status s = EXPERIMENT_FAILED
      then (Inr (status s), w, s)
      else (let s1 = (if status s \<notin> set [EXPERIMENT_FAILED, EXPERIMENT_NULL]
                      then s\<lparr>status := EXPERIMENT_FAILED\<rparr> else s)
            in (Inr (status s1), w, s1)))"

definition wait_for_ready ::
  "rpc_env \<Rightarrow> decoder \<Rightarrow> world \<Rightarrow> PowderExperiment \<Rightarrow> (exn + exp_status) \<times> world \<times> PowderExperiment" where
  "wait_for_ready env dec w s =
     (case poll_loop env dec 0 w s of
        (Inl e, w1, s1) \<Rightarrow> (Inl e, w1, s1)
      | (Inr n, w1, s1) \<Rightarrow> final_evaluation env dec w1 s1)"

text \<open>The start attempt, skipped when the experiment is already being provisioned.\<close>

definition start_then_wait ::
  "rpc_env \<Rightarrow> decoder \<Rightarrow> world \<Rightarrow> PowderExperiment \<Rightarrow> (exn + exp_status) \<times> world \<times> PowderExperiment" where
  "start_then_wait env dec w s =
     (if status s \<notin> set [EXPERIMENT_PROVISIONING, EXPERIMENT_PROVISIONED]
      then (case call_rpc env (Start_experiment (experiment_name s) (project_name s) (profile_name s)) w of
              (Rpc_raises, w1) \<Rightarrow> (Inl RpcFault, w1, s)
            | (Rpc_returns rval resp, w1) \<Rightarrow>
                (if rval \<noteq> RESPONSE_SUCCESS
                 then (let s1 = s\<lparr>status := EXPERIMENT_FAILED\<rparr> in (Inr (status s1), w1, s1))
                 else (case get_status env dec (w1 @ [Sleep 5]) s of
                         (Inl e, w2, s2) \<Rightarrow> (Inl e, w2, s2)
                       | (Inr u, w2, s2) \<Rightarrow>
                           (if status s2 = EXPERIMENT_FAILED then (Inr (status s2), w2, s2)
                            else wait_for_ready env dec w2 s2))))
      else wait_for_ready env dec w s)"

definition start_and_wait ::
  "rpc_env \<Rightarrow> decoder \<Rightarrow> world \<Rightarrow> PowderExperiment \<Rightarrow> (exn + exp_status) \<times> world \<times> PowderExperiment" where
  "start_and_wait env dec w s =
     (case check_status env dec w s of
        (Inl e, w1, s1) \<Rightarrow> (Inl e, w1, s1)
      | (Inr current_status, w1, s1) \<Rightarrow>
          (if current_status = EXPERIMENT_READY
           then (case reload_nodes env dec w1 s1 of (w2, s2) \<Rightarrow> (Inr (status s2), w2, s2))
           else if current_status \<in> set [EXPERIMENT_PROVISIONING, EXPERIMENT_PROVISIONED]
           then start_then_wait env dec w1 s1
           else if current_status = EXPERIMENT_FAILED
           then (case terminate env w1 s1 of
                   (Inl e, w2, s2) \<Rightarrow> (Inl e, w2, s2)
                 | (Inr t, w2, s2) \<Rightarrow> start_then_wait env dec w2 s2)
           else if current_status \<in> set [EXPERIMENT_NOT_STARTED, EXPERIMENT_NULL, EXPERIMENT_UNKNOWN]
           then start_then_wait env dec w1 s1
           else (Inr current_status, w1, s1)))"

section \<open>The remote session (powder/ssh.py)\<close>

text \<open>
  The \<open>pexpect\<close> child process: only whether it has been closed matters here.
\<close>

datatype child = Child (closed: bool)

record SSHConnection =
  prompt :: string
  host_address :: string
  username :: string
  password :: "string option"
  cert_path :: string
  ssh :: "child option"

text \<open>
  \<open>__init__\<close> reads the process environment and the file system: \<open>environ\<close> is
  \<open>os.environ\<close> and \<open>path_exists\<close> is \<open>os.path.exists\<close>. The argument \<open>username\<close> is
  \<open>None\<close> or a string; the field \<open>host_address\<close> is the source's \<open>ip_address\<close>.
\<close>

definition init_ssh ::
  "(string \<rightharpoonup> string) \<Rightarrow> (string \<Rightarrow> bool) \<Rightarrow> string \<Rightarrow> string option \<Rightarrow> string
     \<Rightarrow> exn + SSHConnection" where
  "init_ssh environ path_exists ip user_arg pr =
     (case (case user_arg of
              Some (c # cs) \<Rightarrow> Inr (c # cs)
            | _ \<Rightarrow> (case environ ''USER'' of
                      Some v \<Rightarrow> Inr v
                    | None \<Rightarrow> Inl (ValueError
                               ''Username not provided and USER environment variable not set''))) of
        Inl e \<Rightarrow> Inl e
      | Inr u \<Rightarrow>
          (case environ ''CERT'' of
             None \<Rightarrow> Inl (ValueError ''CERT environment variable pointing to SSH key is required'')
           | Some p \<Rightarrow>
               if p = [] then Inl (ValueError ''CERT environment variable pointing to SSH key is required'')
               else if \<not> path_exists p then Inl (FileNotFoundError (''SSH key file not found: '' @ p))
               else Inr \<lparr> prompt = pr, host_address = ip, username = u,
                          password = environ ''KEYPWORD'', cert_path = p, ssh = None \<rparr>))"

text \<open>
  What \<open>open\<close> does to the outside, in order. \<open>Expect n t\<close> is a call of \<open>expect\<close> with \<open>n\<close>
  patterns and a timeout of \<open>t\<close> seconds.
\<close>

datatype ssh_event =
    Spawn string
  | Expect nat nat
  | Sendline string
  | Close_force
  | Backoff nat

type_synonym ssh_world = "ssh_event list"

text \<open>
  The outside answers knowing what happened before: whether \<open>pexpect.spawn\<close> succeeds
  (it raises \<open>ExceptionPexpect\<close> if not), and what a call of \<open>expect\<close> yields, the index of
  the pattern that matched or an \<open>ExceptionPexpect\<close> (\<open>pexpect.EOF\<close> and
  \<open>pexpect.TIMEOUT\<close> are such, when the pattern list does not hold them).
\<close>

datatype expect_result = Matched nat | Expect_raises

record ssh_env =
  spawns :: "ssh_world \<Rightarrow> bool"
  expects :: "ssh_world \<Rightarrow> expect_result"

definition ssh_command :: "SSHConnection \<Rightarrow> string" where
  "ssh_command s =
     ''ssh -i '' @ cert_path s @ '' -o StrictHostKeyChecking=no -o UserKnownHostsFile=/dev/null ''
       @ username s @ ''@'' @ host_address s"

definition expect :: "ssh_env \<Rightarrow> nat \<Rightarrow> nat \<Rightarrow> ssh_world \<Rightarrow> expect_result \<times> ssh_world" where
  "expect env n t w = (expects env w, w @ [Expect n t])"

text \<open>\<open>self.ssh.close(force=True)\<close>, and the guarded form \<open>if self.ssh and not self.ssh.closed\<close>.\<close>

definition close_force :: "ssh_world \<Rightarrow> SSHConnection \<Rightarrow> ssh_world \<times> SSHConnection" where
  "close_force w s = (w @ [Close_force], s\<lparr>ssh := Some (Child True)\<rparr>)"

definition close_if_open :: "ssh_world \<Rightarrow> SSHConnection \<Rightarrow> ssh_world \<times> SSHConnection" where
  "close_if_open w s =
     (case ssh s of
        Some (Child False) \<Rightarrow> close_force w s
      | _ \<Rightarrow> (w, s))"

text \<open>
  How one round of the retry loop ends: \<open>open\<close> returns, an exception leaves \<open>open\<close>, or
  the round falls through to the retry logic.
\<close>

datatype round_result = Returned | Raised exn | Retry

text \<open>
  The step after a key passphrase prompt, with the two messages of the two places it
  stands at; \<open>close_first\<close> tells whether the failure branches close the child before
  they raise (they do at the first prompt, not after a host key confirmation).
\<close>

definition passphrase_step ::
  "ssh_env \<Rightarrow> bool \<Rightarrow> string \<Rightarrow> string \<Rightarrow> ssh_world \<Rightarrow> SSHConnection
     \<Rightarrow> round_result \<times> ssh_world \<times> SSHConnection" where
  "passphrase_step env close_first denied_msg unset_msg w s =
     (case password s of
        Some pw \<Rightarrow>
          (if pw \<noteq> []
           then (case expect env 2 15 (w @ [Sendline pw]) of
                   (Expect_raises, w1) \<Rightarrow>
                     (case close_if_open w1 s of (w2, s2) \<Rightarrow> (Retry, w2, s2))
                 | (Matched j, w1) \<Rightarrow>
                     (if j = 0 then (Returned, w1, s)
                      else if close_first
                      then (case close_force w1 s of (w2, s2) \<Rightarrow> (Raised (ValueError denied_msg), w2, s2))
                      else (Raised (ValueError denied_msg), w1, s)))
           else if close_first
           then (case close_force w s of (w2, s2) \<Rightarrow> (Raised (ValueError unset_msg), w2, s2))
           else (Raised (ValueError unset_msg), w, s))
      | None \<Rightarrow>
          (if close_first
           then (case close_force w s of (w2, s2) \<Rightarrow> (Raised (ValueError unset_msg), w2, s2))
           else (Raised (ValueError unset_msg), w, s)))"

definition after_host_key ::
  "ssh_env \<Rightarrow> ssh_world \<Rightarrow> SSHConnection \<Rightarrow> round_result \<times> ssh_world \<times> SSHConnection" where
  "after_host_key env w s =
     (case expect env 7 15 (w @ [Sendline ''yes'']) of
        (Expect_raises, w1) \<Rightarrow> (case close_if_open w1 s of (w2, s2) \<Rightarrow> (Retry, w2, s2))
      | (Matched k, w1) \<Rightarrow>
          (if k = 0 then (Returned, w1, s)
           else if k = 1
           then (Raised (ValueError ''SSH requested user password after host key confirmation.''), w1, s)
           else if k = 2
           then passphrase_step env False
                  ''Passphrase authentication failed after host key confirmation.''
                  ''Encrypted key requires KEYPWORD after host key confirmation.'' w1 s
           else if k = 3
           then (Raised (ConnectionRefusedError ''Permission denied after host key confirmation.''), w1, s)
           else (case close_if_open w1 s of (w2, s2) \<Rightarrow> (Retry, w2, s2))))"

text \<open>The body of the \<open>try\<close> in the loop of \<open>open\<close>, with its \<open>except\<close> handler.\<close>

definition attempt ::
  "ssh_env \<Rightarrow> ssh_world \<Rightarrow> SSHConnection \<Rightarrow> round_result \<times> ssh_world \<times> SSHConnection" where
  "attempt env w s =
     (if \<not> spawns env w
      then (case close_if_open (w @ [Spawn (ssh_command s)]) s of (w1, s1) \<Rightarrow> (Retry, w1, s1))
      else (let s0 = s\<lparr>ssh := Some (Child False)\<rparr>
            in case expect env 7 25 (w @ [Spawn (ssh_command s)]) of
                 (Expect_raises, w1) \<Rightarrow> (case close_if_open w1 s0 of (w2, s2) \<Rightarrow> (Retry, w2, s2))
               | (Matched i, w1) \<Rightarrow>
                   (if i = 0 then (Returned, w1, s0)
                    else if i = 1
                    then (case close_force w1 s0 of
                            (w2, s2) \<Rightarrow>
                              (Raised (ValueError
                                 ''SSH requested user password, unexpected for key authentication.''),
                               w2, s2))
                    else if i = 2
                    then passphrase_step env True
                           ''Incorrect SSH key passphrase or other permission issue.''
                           ''Encrypted SSH key requires KEYPWORD environment variable.'' w1 s0
                    else if i = 3
                    then (case close_force w1 s0 of
                            (w2, s2) \<Rightarrow>
                              (Raised (ConnectionRefusedError ''SSH Permission Denied (publickey)''), w2, s2))
                    else if i = 4 then after_host_key env w1 s0
                    else if i = 5 \<or> i = 6
                    then (case close_if_open w1 s0 of (w2, s2) \<Rightarrow> (Retry, w2, s2))
                    else (Retry, w1, s0))))"

definition max_retries :: nat where "max_retries = 4"

function open_loop ::
  "ssh_env \<Rightarrow> nat \<Rightarrow> ssh_world \<Rightarrow> SSHConnection \<Rightarrow> (exn + unit) \<times> ssh_world \<times> SSHConnection" where
  "open_loop env retry_count w s =
     (if retry_count < max_retries
      then (case attempt env w s of
              (Returned, w1, s1) \<Rightarrow> (Inr (), w1, s1)
            | (Raised e, w1, s1) \<Rightarrow> (Inl e, w1, s1)
            | (Retry, w1, s1) \<Rightarrow>
                (if retry_count + 1 < max_retries
                 then open_loop env (retry_count + 1) (w1 @ [Backoff (2 ^ (retry_count + 1))]) s1
                 else open_loop env (retry_count + 1) w1 s1))
      else (Inl (ConnectionError (''Could not connect via SSH to '' @ host_address s
                                   @ '' after multiple retries'')), w, s))"
  by pat_completeness auto
termination
  by (relation "measure (\<lambda>(env, retry_count, w, s). max_retries - retry_count)") auto

definition open_ssh ::
  "ssh_env \<Rightarrow> ssh_world \<Rightarrow> SSHConnection \<Rightarrow> (exn + unit) \<times> ssh_world \<times> SSHConnection" where
  "open_ssh env w s = open_loop env 0 w s"

definition attempts :: "ssh_world \<Rightarrow> nat" where
  "attempts w = length [c. Spawn c \<leftarrow> w]"

section \<open>Observations and invariants\<close>

text \<open>
  The seconds slept in a run, in order; and the wait of \<open>start_and_wait\<close>: at most one
  pause of 5 seconds, then at most \<open>mx\<close> poll intervals.
\<close>

fun sleeps :: "world \<Rightarrow> nat list" where
  "sleeps [] = []"
| "sleeps (Rpc c # w) = sleeps w"
| "sleeps (Sleep n # w) = n # sleeps w"

definition waited :: "nat \<Rightarrow> world \<Rightarrow> world \<Rightarrow> bool" where
  "waited mx w w1 =
     (\<exists>n pause. n \<le> mx \<and> (pause = [] \<or> pause = [5]) \<and>
        sleeps w1 = sleeps w @ pause @ replicate n POLL_INTERVAL_S)"

text \<open>
  A value returned by \<open>start_and_wait\<close> is the controller's state; it is Ready with a
  non-empty registry, Failed or Null.
\<close>

definition settled :: "exp_status \<Rightarrow> PowderExperiment \<Rightarrow> bool" where
  "settled st s =
     (st = status s \<and>
      ((st = EXPERIMENT_READY \<and> nodes s \<noteq> []) \<or> st = EXPERIMENT_FAILED \<or> st = EXPERIMENT_NULL))"

text \<open>
  The fields that no operation writes, and the shapes that a status refresh can give the
  controller: unchanged, cleared and Null, a new state over the same registry, Ready over
  a non-empty registry, or Failed over an empty one.
\<close>

definition same_identity :: "PowderExperiment \<Rightarrow> PowderExperiment \<Rightarrow> bool" where
  "same_identity s s1 =
     (experiment_name s1 = experiment_name s \<and> project_name s1 = project_name s \<and>
      profile_name s1 = profile_name s \<and> poll_count_max s1 = poll_count_max s)"

definition refreshed :: "PowderExperiment \<Rightarrow> PowderExperiment \<Rightarrow> bool" where
  "refreshed s s1 =
     (same_identity s s1 \<and>
      (s1 = s \<or>
       (status s1 = EXPERIMENT_NULL \<and> nodes s1 = [] \<and> manifests s1 = None) \<or>
       (status s1 \<in> {EXPERIMENT_UNKNOWN, EXPERIMENT_PROVISIONING, EXPERIMENT_PROVISIONED,
                      EXPERIMENT_FAILED} \<and> nodes s1 = nodes s \<and> manifests s1 = manifests s) \<or>
       (status s1 = EXPERIMENT_READY \<and> nodes s1 \<noteq> []) \<or>
       (status s1 = EXPERIMENT_FAILED \<and> nodes s1 = [])))"

text \<open>
  The invariant of the controller, and the states that the public operations
  (\<open>__init__\<close>, \<open>check_status\<close>, \<open>start_and_wait\<close>, \<open>terminate\<close>) can reach in any
  environment.
\<close>

definition ctrl_inv :: "PowderExperiment \<Rightarrow> bool" where
  "ctrl_inv s =
     ((status s = EXPERIMENT_NULL \<longrightarrow> nodes s = [] \<and> manifests s = None) \<and>
      (status s = EXPERIMENT_READY \<longrightarrow> nodes s \<noteq> []) \<and>
      poll_count_max s = PROVISION_TIMEOUT_S div POLL_INTERVAL_S)"

inductive reachable :: "PowderExperiment \<Rightarrow> bool" where
  reach_init: "init name project profile = Inr s \<Longrightarrow> reachable s"
| reach_check_status:
    "reachable s \<Longrightarrow> check_status env dec w s = (r, w1, s1) \<Longrightarrow> reachable s1"
| reach_start_and_wait:
    "reachable s \<Longrightarrow> start_and_wait env dec w s = (r, w1, s1) \<Longrightarrow> reachable s1"
| reach_terminate:
    "reachable s \<Longrightarrow> terminate env w s = (r, w1, s1) \<Longrightarrow> reachable s1"

text \<open>
  The registry that parsing an answer to the manifest request builds from an empty
  registry: the nodes of the decoded documents when the request succeeds and its output
  can be decoded, and none otherwise (an exception, another result code, a payload
  without output, an output that cannot be decoded).
\<close>

definition fetched_nodes :: "decoder \<Rightarrow> rpc_result \<Rightarrow> registry" where
  "fetched_nodes dec answer =
     (case answer of
        Rpc_raises \<Rightarrow> []
      | Rpc_returns rval resp \<Rightarrow>
          (if rval = RESPONSE_SUCCESS
           then (case resp of
                   Resp_None \<Rightarrow> []
                 | Resp_Dict kvs \<Rightarrow>
                     (case map_of kvs ''output'' of
                        None \<Rightarrow> []
                      | Some out \<Rightarrow>
                          (case dec out of
                             None \<Rightarrow> []
                           | Some ms \<Rightarrow> foldl (\<lambda>reg m. parse_manifest m reg) [] ms)))
           else []))"

text \<open>
  The requests of one run. In a run that leads from the world \<open>w\<close> to the world \<open>w1\<close>, the
  request \<open>c\<close> was issued after the history \<open>h\<close> when \<open>h\<close> extends \<open>w\<close> and \<open>h\<close> followed by
  the request is the beginning of \<open>w1\<close>.
\<close>

definition asked :: "world \<Rightarrow> world \<Rightarrow> world \<Rightarrow> rpc_call \<Rightarrow> bool" where
  "asked w w1 h c = (prefix w h \<and> prefix (h @ [Rpc c]) w1)"

text \<open>
  Two properties of a run from \<open>w\<close> to \<open>w1\<close>: no manifest request of the run was answered
  with a valid node (the request raised or failed, or its documents hold none); no status
  request of the run was answered with a response that reports the experiment as missing.
  Requests of other kinds, and answers that the run never asked for, play no part.
\<close>

definition fetched_none :: "rpc_env \<Rightarrow> decoder \<Rightarrow> world \<Rightarrow> world \<Rightarrow> bool" where
  "fetched_none env dec w w1 =
     (\<forall>h p n. asked w w1 h (Get_experiment_manifests p n) \<longrightarrow>
              fetched_nodes dec (env h (Get_experiment_manifests p n)) = [])"

definition none_missing :: "rpc_env \<Rightarrow> world \<Rightarrow> world \<Rightarrow> bool" where
  "none_missing env w w1 =
     (\<forall>h p n rval resp.
        asked w w1 h (Get_experiment_status p n) \<and>
        env h (Get_experiment_status p n) = Rpc_returns rval resp \<longrightarrow>
          \<not> no_such_experiment rval resp)"

text \<open>
  The same two properties of an environment as a whole, at every history. \<open>heard\<close> is the
  environment cut down to the requests of a run: it answers these as the environment does
  and raises on any other. Two environments agree on a run when they answer its requests
  alike.
\<close>

definition yields_no_nodes :: "rpc_env \<Rightarrow> decoder \<Rightarrow> bool" where
  "yields_no_nodes env dec =
     (\<forall>w p n. fetched_nodes dec (env w (Get_experiment_manifests p n)) = [])"

definition never_missing :: "rpc_env \<Rightarrow> bool" where
  "never_missing env =
     (\<forall>w p n rval resp. env w (Get_experiment_status p n) = Rpc_returns rval resp
        \<longrightarrow> \<not> no_such_experiment rval resp)"

definition heard :: "rpc_env \<Rightarrow> world \<Rightarrow> world \<Rightarrow> rpc_env" where
  "heard env w w1 = (\<lambda>h c. if asked w w1 h c then env h c else Rpc_raises)"

definition agree :: "rpc_env \<Rightarrow> rpc_env \<Rightarrow> world \<Rightarrow> world \<Rightarrow> bool" where
  "agree env env' w w1 = (\<forall>h c. asked w w1 h c \<longrightarrow> env' h c = env h c)"

text \<open>
  The parser as the specification words it: the node entries of a document are the node
  collection of its root element, a single child counting as a one-element sequence; an
  entry is well formed when it carries a client identifier and a host descriptor (a
  single element, or of a collection the first with an IPv4 address) that has both a
  hostname and an address; the registry maps the client identifiers of the well-formed
  entries to their nodes, a later entry replacing an earlier one of the same name.
\<close>

definition spec_entries :: "pyval \<Rightarrow> pyval list" where
  "spec_entries doc =
     (case doc of
        PDict kvs \<Rightarrow>
          (case map_of kvs ''rspec'' of
             Some (PDict rkvs) \<Rightarrow>
               (case map_of rkvs ''node'' of
                  None \<Rightarrow> []
                | Some PNone \<Rightarrow> []
                | Some (PList xs) \<Rightarrow> xs
                | Some v \<Rightarrow> [v])
           | _ \<Rightarrow> [])
      | _ \<Rightarrow> [])"

definition spec_host :: "pyval \<Rightarrow> (string \<times> pyval) list option" where
  "spec_host v =
     (case v of
        PDict kvs \<Rightarrow> Some kvs
      | PList hs \<Rightarrow>
          (case [kvs. PDict kvs \<leftarrow> hs, truthy (dict_get kvs ''@ipv4'')] of
             [] \<Rightarrow> None
           | kvs # rest \<Rightarrow> Some kvs)
      | _ \<Rightarrow> None)"

definition spec_node :: "pyval \<Rightarrow> Node option" where
  "spec_node entry =
     (case entry of
        PDict kvs \<Rightarrow>
          (case (map_of kvs ''@client_id'', spec_host (dict_get kvs ''host'')) of
             (Some (PStr c), Some h) \<Rightarrow>
               (if c \<noteq> [] \<and> truthy (dict_get h ''@name'') \<and> truthy (dict_get h ''@ipv4'')
                then Some \<lparr>client_id = c, ip_address = dict_get h ''@ipv4'',
                           hostname = dict_get h ''@name''\<rparr>
                else None)
           | _ \<Rightarrow> None)
      | _ \<Rightarrow> None)"

definition spec_nodes :: "pyval list \<Rightarrow> Node list" where
  "spec_nodes docs = concat (map (\<lambda>d. List.map_filter spec_node (spec_entries d)) docs)"

definition store :: "registry \<Rightarrow> Node \<Rightarrow> registry" where
  "store reg n = AList.update (client_id n) n reg"

definition spec_registry :: "pyval list \<Rightarrow> registry" where
  "spec_registry docs = foldl store [] (spec_nodes docs)"

text \<open>
  \<open>xmltodict\<close> renders an attribute as a string: the client identifier of an entry, when
  present, is a string (or \<open>None\<close>), never a dictionary or a list.
\<close>

definition string_id :: "pyval \<Rightarrow> bool" where
  "string_id entry =
     (case entry of
        PDict kvs \<Rightarrow> (case dict_get kvs ''@client_id'' of PDict d \<Rightarrow> False | PList l \<Rightarrow> False | _ \<Rightarrow> True)
      | _ \<Rightarrow> True)"

definition string_ids :: "pyval list \<Rightarrow> bool" where
  "string_ids docs = list_all (\<lambda>d. list_all string_id (spec_entries d)) docs"

text \<open>
  \<open>k\<close> failed rounds in a row, the first with the counter at \<open>retry_count\<close>: each spawns,
  waits for the first prompt, closes the child, and sleeps unless it was the last round.
\<close>

fun failed_rounds :: "string \<Rightarrow> nat \<Rightarrow> nat \<Rightarrow> ssh_world" where
  "failed_rounds cmd retry_count 0 = []"
| "failed_rounds cmd retry_count (Suc k) =
     [Spawn cmd, Expect 7 25, Close_force]
     @ (if retry_count + 1 < max_retries then [Backoff (2 ^ (retry_count + 1))] else [])
     @ failed_rounds cmd (retry_count + 1) k"

text \<open>
  The next \<open>k\<close> attempts fail in a transient way: the process is spawned and the wait
  for the first prompt ends with end-of-stream (index 5) or a timeout (index 6).
\<close>

fun transient_rounds :: "ssh_env \<Rightarrow> string \<Rightarrow> nat \<Rightarrow> ssh_world \<Rightarrow> nat \<Rightarrow> bool" where
  "transient_rounds env cmd retry_count w 0 = True"
| "transient_rounds env cmd retry_count w (Suc k) =
     (spawns env w \<and>
      (expects env (w @ [Spawn cmd]) = Matched 5 \<or> expects env (w @ [Spawn cmd]) = Matched 6) \<and>
      transient_rounds env cmd (retry_count + 1) (w @ failed_rounds cmd retry_count 1) k)"

text \<open>
  What the stream of the child shows when a wait ends, and what each of the two pattern
  lists of \<open>open\<close> makes of it: \<open>expected_patterns\<close> is the list of seven that an attempt
  waits for first and again after a host key confirmation, \<open>passphrase_patterns\<close> the list
  of two (the shell prompt and a permission denial) that it waits for after it has sent
  the passphrase. A wait returns the index of the pattern that matched; when none does,
  \<open>pexpect\<close> raises \<open>TIMEOUT\<close> or \<open>EOF\<close>, which the list of seven holds as patterns and the
  list of two does not. The prompt pattern of the session is taken to match the shell
  prompt only.
\<close>

datatype shown =
    Shell_prompt
  | Password_prompt
  | Passphrase_prompt
  | Denial
  | Host_key_question
  | End_of_stream
  | Silence

fun expected_patterns :: "shown \<Rightarrow> expect_result" where
  "expected_patterns Shell_prompt = Matched 0"
| "expected_patterns Password_prompt = Matched 1"
| "expected_patterns Passphrase_prompt = Matched 2"
| "expected_patterns Denial = Matched 3"
| "expected_patterns Host_key_question = Matched 4"
| "expected_patterns End_of_stream = Matched 5"
| "expected_patterns Silence = Matched 6"

fun passphrase_patterns :: "shown \<Rightarrow> expect_result" where
  "passphrase_patterns Shell_prompt = Matched 0"
| "passphrase_patterns Denial = Matched 1"
| "passphrase_patterns Password_prompt = Expect_raises"
| "passphrase_patterns Passphrase_prompt = Expect_raises"
| "passphrase_patterns Host_key_question = Expect_raises"
| "passphrase_patterns End_of_stream = Expect_raises"
| "passphrase_patterns Silence = Expect_raises"

text \<open>
  The world and the session with which the loop of \<open>open\<close> starts the round at which its
  counter is \<open>retry_count\<close>, if it gets there: every round before fell through to the
  retry logic, for whatever reason (a failed spawn, an exception of a wait, end-of-stream,
  a timeout, an unexpected answer after a host key confirmation), and a sleep followed
  unless the rounds were used up.
\<close>

fun loop_state ::
  "ssh_env \<Rightarrow> ssh_world \<Rightarrow> SSHConnection \<Rightarrow> nat \<Rightarrow> (ssh_world \<times> SSHConnection) option" where
  "loop_state env w s 0 = Some (w, s)"
| "loop_state env w s (Suc retry_count) =
     (case loop_state env w s retry_count of
        None \<Rightarrow> None
      | Some (w1, s1) \<Rightarrow>
          (if retry_count < max_retries
           then (case attempt env w1 s1 of
                   (Retry, w2, s2) \<Rightarrow>
                     Some (if retry_count + 1 < max_retries
                           then w2 @ [Backoff (2 ^ (retry_count + 1))] else w2, s2)
                 | (Returned, w2, s2) \<Rightarrow> None
                 | (Raised e, w2, s2) \<Rightarrow> None)
           else None))"

section \<open>Example scenarios\<close>

text \<open>
  A manifest with one well-formed node; a fresh controller, and the controller that has
  parsed the manifest.
\<close>

definition ex_host :: pyval where
  "ex_host = PDict [(''@name'', PStr ''pc1.example.net''), (''@ipv4'', PStr ''10.0.0.1'')]"

definition ex_node0 :: pyval where
  "ex_node0 = PDict [(''@client_id'', PStr ''node-0''), (''host'', ex_host)]"

definition ex_manifest :: pyval where
  "ex_manifest = PDict [(''rspec'', PDict [(''node'', ex_node0)])]"

definition ex_fresh :: PowderExperiment where
  "ex_fresh = \<lparr> experiment_name = ''exp'', project_name = ''proj'', profile_name = ''prof'',
                status = EXPERIMENT_NOT_STARTED, nodes = [], manifests = None,
                poll_count_max = 90 \<rparr>"

definition ex_ready :: PowderExperiment where
  "ex_ready = ex_fresh \<lparr> status := EXPERIMENT_READY,
       nodes := [(''node-0'', \<lparr>client_id = ''node-0'', ip_address = PStr ''10.0.0.1'',
                               hostname = PStr ''pc1.example.net''\<rparr>)],
       manifests := Some [ex_manifest] \<rparr>"

text \<open>
  A manifest with an entry that lacks its client identifier beside the well-formed one,
  and a controller that holds an older node when it is to parse that manifest.
\<close>

definition ex_two_nodes :: pyval where
  "ex_two_nodes = PDict [(''rspec'', PDict [(''node'', PList [PDict [(''host'', ex_host)], ex_node0])])]"

definition ex_old :: PowderExperiment where
  "ex_old = ex_fresh \<lparr> status := EXPERIMENT_PROVISIONING,
       nodes := [(''old'', \<lparr>client_id = ''old'', ip_address = PStr ''10.0.0.9'',
                            hostname = PStr ''pc9.example.net''\<rparr>)],
       manifests := Some [ex_two_nodes] \<rparr>"

text \<open>
  Control planes that always give the same answer, and decoders: one that fails, one
  that yields the example manifest, one that yields a manifest without nodes, one that
  yields no manifest at all.
\<close>

definition env_provisioning :: rpc_env where
  "env_provisioning = (\<lambda>w c. Rpc_returns RESPONSE_SUCCESS
      (Resp_Dict [(''output'', ''Status: provisioning, UUID: abc'')]))"

definition env_ready :: rpc_env where
  "env_ready = (\<lambda>w c. Rpc_returns RESPONSE_SUCCESS (Resp_Dict [(''output'', ''Status: ready'')]))"

definition env_failed :: rpc_env where
  "env_failed = (\<lambda>w c. Rpc_returns RESPONSE_SUCCESS (Resp_Dict [(''output'', ''Status: failed'')]))"

definition env_padded_failed :: rpc_env where
  "env_padded_failed = (\<lambda>w c. Rpc_returns RESPONSE_SUCCESS (Resp_Dict [(''output'', ''  Status: failed'')]))"


definition dec_none :: decoder where
  "dec_none = (\<lambda>out. None)"

definition dec_one :: decoder where
  "dec_one = (\<lambda>out. Some [ex_manifest])"

definition dec_hollow :: decoder where
  "dec_hollow = (\<lambda>out. Some [PDict [(''rspec'', PDict [])]])"

definition dec_empty :: decoder where
  "dec_empty = (\<lambda>out. Some [])"

text \<open>
  A control plane that reports Ready and refuses the manifest request; and one that
  reports Ready on the first request of all and a missing experiment afterwards.
\<close>

definition env_ready_error :: rpc_env where
  "env_ready_error = (\<lambda>w c. case c of
       Get_experiment_manifests p n \<Rightarrow> Rpc_returns RESPONSE_ERROR (Resp_Dict [(''output'', ''busy'')])
     | _ \<Rightarrow> Rpc_returns RESPONSE_SUCCESS (Resp_Dict [(''output'', ''Status: ready'')]))"

definition env_ready_then_missing :: rpc_env where
  "env_ready_then_missing = (\<lambda>w c. case c of
       Get_experiment_status p n \<Rightarrow>
         (if w = [] then Rpc_returns RESPONSE_SUCCESS (Resp_Dict [(''output'', ''Status: ready'')])
          else Rpc_returns RESPONSE_BADARGS (Resp_Dict [(''output'', ''No such experiment exp'')]))
     | _ \<Rightarrow> Rpc_returns RESPONSE_SUCCESS (Resp_Dict [(''output'', ''{}'')]))"

text \<open>
  A control plane that reports Ready, raises on every manifest request, refuses to
  terminate (bad arguments) and accepts the start request.
\<close>

definition env_fetch_raises :: rpc_env where
  "env_fetch_raises w c =
     (case c of
        Get_experiment_status p n \<Rightarrow>
          Rpc_returns RESPONSE_SUCCESS (Resp_Dict [(''output'', ''Status: ready'')])
      | Get_experiment_manifests p n \<Rightarrow> Rpc_raises
      | Terminate_experiment p n \<Rightarrow> Rpc_returns RESPONSE_BADARGS Resp_None
      | Start_experiment n p f \<Rightarrow> Rpc_returns RESPONSE_SUCCESS Resp_None)"

text \<open>
  The fresh controller after a \<open>Status: ready\<close> with the example manifest, and the
  same controller after a following \<open>Status: failed\<close>.
\<close>

definition ex_after_ready :: PowderExperiment where
  "ex_after_ready = snd (snd (check_status env_ready dec_one [] ex_fresh))"

definition ex_stale :: PowderExperiment where
  "ex_stale = snd (snd (check_status env_failed dec_one [] ex_after_ready))"

text \<open>
  A session, and remote ends: one whose first attempt ends with end-of-stream before
  the prompt comes, and one that always ends with end-of-stream.
\<close>

definition ex_ssh :: SSHConnection where
  "ex_ssh = \<lparr> prompt = ''$'', host_address = ''10.0.0.1'', username = ''alice'',
             password = None, cert_path = ''/keys/id_rsa'', ssh = None \<rparr>"

definition env_eof_once :: ssh_env where
  "env_eof_once = \<lparr> spawns = (\<lambda>w. True),
                    expects = (\<lambda>w. if attempts w \<le> 1 then Matched 5 else Matched 0) \<rparr>"

definition env_always_eof :: ssh_env where
  "env_always_eof = \<lparr> spawns = (\<lambda>w. True), expects = (\<lambda>w. Matched 5) \<rparr>"

text \<open>
  A session with a key passphrase; a remote end that asks for the passphrase and, once it
  has got it, for the password of the user; and one whose first process cannot be spawned
  and that denies permission afterwards.
\<close>

definition ex_keyed :: SSHConnection where
  "ex_keyed = ex_ssh\<lparr>password := Some ''secret''\<rparr>"

definition env_password_after_passphrase :: ssh_env where
  "env_password_after_passphrase =
     \<lparr> spawns = (\<lambda>w. True),
       expects = (\<lambda>w. if last w = Sendline ''secret'' then passphrase_patterns Password_prompt
                       else expected_patterns Passphrase_prompt) \<rparr>"

definition env_no_spawn_then_denied :: ssh_env where
  "env_no_spawn_then_denied =
     \<lparr> spawns = (\<lambda>w. 1 \<le> attempts w), expects = (\<lambda>w. expected_patterns Denial) \<rparr>"

section \<open>Auxiliary facts\<close>

subsection \<open>Status refresh\<close>

lemma sleeps_append [simp]: "sleeps (w @ v) = sleeps w @ sleeps v"
  by (induction w rule: sleeps.induct) simp_all

lemma update_status_fields [simp]:
  "status (update_status p n s) = (if p = n then status s else n)"
  "nodes (update_status p n s) = nodes s"
  "manifests (update_status p n s) = manifests s"
  "poll_count_max (update_status p n s) = poll_count_max s"
  "experiment_name (update_status p n s) = experiment_name s"
  "project_name (update_status p n s) = project_name s"
  "profile_name (update_status p n s) = profile_name s"
  by (simp_all add: update_status_def)

lemma update_status_same: "status s = p \<Longrightarrow> update_status p n s = s\<lparr>status := n\<rparr>"
  by (auto simp: update_status_def)

lemma no_such_experiment_not_success [simp]: "\<not> no_such_experiment RESPONSE_SUCCESS resp"
  by (simp add: no_such_experiment_def)

lemma get_manifests_cases:
  "get_manifests env dec w s = (r, w1, s1) \<Longrightarrow>
     w1 = w @ [Rpc (Get_experiment_manifests (project_name s) (experiment_name s))] \<and>
     ((\<exists>e. r = Inl e \<and> s1 = s) \<or> (\<exists>m. r = Inr () \<and> s1 = s\<lparr>manifests := m\<rparr>))"
  by (auto simp: get_manifests_def call_rpc_def
           split: rpc_result.splits response.splits option.splits if_splits)

lemma parse_manifests_fields [simp]:
  "status (parse_manifests s) = status s"
  "manifests (parse_manifests s) = manifests s"
  "poll_count_max (parse_manifests s) = poll_count_max s"
  "experiment_name (parse_manifests s) = experiment_name s"
  "project_name (parse_manifests s) = project_name s"
  "profile_name (parse_manifests s) = profile_name s"
  by (simp_all add: parse_manifests_def split: option.split)

lemma ready_new_status_cases:
  assumes "ready_new_status env dec w s = (st, w1, s1)"
  shows "(status s = EXPERIMENT_READY \<and> nodes s \<noteq> [] \<and> st = EXPERIMENT_READY \<and> w1 = w \<and> s1 = s) \<or>
         (\<not> (status s = EXPERIMENT_READY \<and> nodes s \<noteq> []) \<and>
          (\<exists>rm s2. get_manifests env dec w s = (rm, w1, s2) \<and>
             (case rm of
                Inl e \<Rightarrow> st = EXPERIMENT_FAILED \<and> s1 = s2
              | Inr u \<Rightarrow> s1 = parse_manifests s2 \<and>
                         st = (if nodes s1 = [] then EXPERIMENT_FAILED else EXPERIMENT_READY))))"
proof (cases "status s \<noteq> EXPERIMENT_READY \<or> nodes s = []")
  case False
  with assms show ?thesis by (simp add: ready_new_status_def)
next
  case True
  obtain rm w2 s2 where gm: "get_manifests env dec w s = (rm, w2, s2)"
    by (metis prod_cases3)
  with True assms show ?thesis
    by (cases rm) (auto simp: ready_new_status_def Let_def split: if_splits)
qed

lemma ready_new_status_shape:
  assumes "ready_new_status env dec w s = (st, w1, s1)"
  shows "same_identity s s1 \<and> status s1 = status s \<and>
         (w1 = w \<or> w1 = w @ [Rpc (Get_experiment_manifests (project_name s) (experiment_name s))]) \<and>
         ((st = EXPERIMENT_READY \<and> nodes s1 \<noteq> []) \<or>
          (st = EXPERIMENT_FAILED \<and> nodes s1 = []) \<or>
          (st = EXPERIMENT_FAILED \<and> s1 = s))"
  using ready_new_status_cases [OF assms]
proof (elim disjE conjE exE)
  assume "status s = EXPERIMENT_READY" "nodes s \<noteq> []" "st = EXPERIMENT_READY" "w1 = w" "s1 = s"
  then show ?thesis by (simp add: same_identity_def)
next
  fix rm s2
  assume gm: "get_manifests env dec w s = (rm, w1, s2)"
    and c: "case rm of Inl e \<Rightarrow> st = EXPERIMENT_FAILED \<and> s1 = s2
            | Inr u \<Rightarrow> s1 = parse_manifests s2 \<and>
                       st = (if nodes s1 = [] then EXPERIMENT_FAILED else EXPERIMENT_READY)"
  from get_manifests_cases [OF gm] c show ?thesis
    by (cases rm) (auto simp: same_identity_def)
qed

lemma get_status_cases:
  assumes "get_status env dec w s = (r, w1, s1)"
  shows "(\<exists>e. r = Inl e \<and> s1 = s \<and>
              w1 = w @ [Rpc (Get_experiment_status (project_name s) (experiment_name s))]) \<or>
         (r = Inr () \<and> w1 = w @ [Rpc (Get_experiment_status (project_name s) (experiment_name s))] \<and>
          s1 = (if status s \<noteq> EXPERIMENT_NULL
                then s\<lparr>status := EXPERIMENT_NULL, nodes := [], manifests := None\<rparr> else s)) \<or>
         (r = Inr () \<and> w1 = w @ [Rpc (Get_experiment_status (project_name s) (experiment_name s))] \<and>
          (\<exists>st \<in> {EXPERIMENT_UNKNOWN, EXPERIMENT_PROVISIONING, EXPERIMENT_PROVISIONED, EXPERIMENT_FAILED}.
              s1 = s\<lparr>status := st\<rparr>)) \<or>
         (r = Inr () \<and>
          (\<exists>st s2. ready_new_status env dec
                      (w @ [Rpc (Get_experiment_status (project_name s) (experiment_name s))]) s
                    = (st, w1, s2) \<and> s1 = s2\<lparr>status := st\<rparr>))"
proof (cases "env w (Get_experiment_status (project_name s) (experiment_name s))")
  case Rpc_raises
  with assms show ?thesis by (auto simp: get_status_def call_rpc_def)
next
  case (Rpc_returns rval resp)
  show ?thesis
  proof (cases "no_such_experiment rval resp")
    case True
    with Rpc_returns assms show ?thesis by (auto simp: get_status_def call_rpc_def)
  next
    case nf: False
    show ?thesis
    proof (cases "rval = RESPONSE_SUCCESS")
      case False
      with nf Rpc_returns assms show ?thesis
        by (auto simp: get_status_def call_rpc_def)
    next
      case True
      show ?thesis
      proof (cases resp)
        case Resp_None
        with True nf Rpc_returns assms show ?thesis by (auto simp: get_status_def call_rpc_def)
      next
        case (Resp_Dict kvs)
        show ?thesis
        proof (cases "startswith (strip (output_or kvs [])) ''Status: ready''")
          case False
          have mem: "other_new_status (strip (output_or kvs [])) \<in> {EXPERIMENT_UNKNOWN,
                  EXPERIMENT_PROVISIONING, EXPERIMENT_PROVISIONED, EXPERIMENT_FAILED}"
            by (simp add: other_new_status_def)
          from False Resp_Dict True nf Rpc_returns assms
          have "r = Inr () \<and>
                w1 = w @ [Rpc (Get_experiment_status (project_name s) (experiment_name s))] \<and>
                s1 = s\<lparr>status := other_new_status (strip (output_or kvs []))\<rparr>"
            by (auto simp: get_status_def call_rpc_def Let_def update_status_same)
          with mem show ?thesis by blast
        next
          case rdy: True
          obtain st w2 s2 where rn: "ready_new_status env dec
              (w @ [Rpc (Get_experiment_status (project_name s) (experiment_name s))]) s = (st, w2, s2)"
            by (metis prod_cases3)
          from ready_new_status_shape [OF rn] have "status s2 = status s" by simp
          with rn rdy Resp_Dict True nf Rpc_returns assms show ?thesis
            by (auto simp: get_status_def call_rpc_def Let_def update_status_same)
        qed
      qed
    qed
  qed
qed

lemma get_status_refreshed:
  assumes "get_status env dec w s = (r, w1, s1)"
  shows "refreshed s s1"
  using get_status_cases [OF assms]
proof (elim disjE conjE exE bexE)
  fix st s2
  assume rn: "ready_new_status env dec
      (w @ [Rpc (Get_experiment_status (project_name s) (experiment_name s))]) s = (st, w1, s2)"
    and s1: "s1 = s2\<lparr>status := st\<rparr>"
  from ready_new_status_shape [OF rn] s1 show ?thesis
    by (auto simp: refreshed_def same_identity_def)
qed (auto simp: refreshed_def same_identity_def)

lemma get_status_sleeps:
  assumes "get_status env dec w s = (r, w1, s1)"
  shows "sleeps w1 = sleeps w"
  using get_status_cases [OF assms]
proof (elim disjE conjE exE bexE)
  fix st s2
  assume rn: "ready_new_status env dec
      (w @ [Rpc (Get_experiment_status (project_name s) (experiment_name s))]) s = (st, w1, s2)"
  from ready_new_status_shape [OF rn] show ?thesis by auto
qed auto

lemma refreshed_inv: "refreshed s s1 \<Longrightarrow> ctrl_inv s \<Longrightarrow> ctrl_inv s1"
  by (auto simp: refreshed_def ctrl_inv_def same_identity_def)

subsection \<open>The polling loop\<close>

lemma poll_loop_induct_preserves:
  "(\<forall>w s r w1 s1. P s \<longrightarrow> get_status env dec w s = (r, w1, s1) \<longrightarrow> P s1) \<Longrightarrow>
   P s \<Longrightarrow> poll_loop env dec k w s = (r, w1, s1) \<Longrightarrow> P s1"
proof (induction env dec k w s rule: poll_loop.induct)
  case (1 env dec poll_count w s)
  note step = "1.prems"(1) and P = "1.prems"(2) and run = "1.prems"(3)
  show ?case
  proof (cases "status s \<in> set [EXPERIMENT_PROVISIONING, EXPERIMENT_PROVISIONED,
                                   EXPERIMENT_NOT_STARTED, EXPERIMENT_UNKNOWN]
                \<and> poll_count < poll_count_max s")
    case False
    with run P show ?thesis by (simp del: set_simps)
  next
    case True
    obtain r2 w2 s2 where gs: "get_status env dec (w @ [Sleep POLL_INTERVAL_S]) s = (r2, w2, s2)"
      by (metis prod_cases3)
    from step P gs have P2: "P s2" by blast
    show ?thesis
    proof (cases r2)
      case (Inl e)
      with True gs run have "s1 = s2" by (simp del: set_simps)
      with P2 show ?thesis by simp
    next
      case (Inr u)
      with True gs run have "poll_loop env dec (poll_count + 1) w2 s2 = (r, w1, s1)"
        by (simp del: set_simps)
      from "1.IH" [OF True gs [symmetric] Inr refl step P2 this]
      show ?thesis .
    qed
  qed
qed

lemma poll_loop_preserves:
  assumes "\<And>w s r w1 s1. P s \<Longrightarrow> get_status env dec w s = (r, w1, s1) \<Longrightarrow> P s1"
    and "P s" and "poll_loop env dec k w s = (r, w1, s1)"
  shows "P s1"
  using poll_loop_induct_preserves [of P env dec s k w r w1 s1] assms by blast

lemma poll_loop_sleeps:
  "poll_loop env dec k w s = (r, w1, s1) \<Longrightarrow>
     \<exists>n. n \<le> poll_count_max s - k \<and> sleeps w1 = sleeps w @ replicate n POLL_INTERVAL_S \<and>
         poll_count_max s1 = poll_count_max s \<and>
         (\<forall>m. r = Inr m \<longrightarrow> m = k + n \<and>
            (status s1 \<in> set [EXPERIMENT_PROVISIONING, EXPERIMENT_PROVISIONED,
                               EXPERIMENT_NOT_STARTED, EXPERIMENT_UNKNOWN]
             \<longrightarrow> poll_count_max s \<le> m))"
proof (induction env dec k w s rule: poll_loop.induct)
  case (1 env dec poll_count w s)
  note run = "1.prems"
  show ?case
  proof (cases "status s \<in> set [EXPERIMENT_PROVISIONING, EXPERIMENT_PROVISIONED,
                                   EXPERIMENT_NOT_STARTED, EXPERIMENT_UNKNOWN]
                \<and> poll_count < poll_count_max s")
    case False
    with run have "r = Inr poll_count" "w1 = w" "s1 = s" by (simp_all del: set_simps)
    with False show ?thesis by (intro exI [of _ 0]) (auto simp del: set_simps)
  next
    case True
    obtain r2 w2 s2 where gs: "get_status env dec (w @ [Sleep POLL_INTERVAL_S]) s = (r2, w2, s2)"
      by (metis prod_cases3)
    from get_status_sleeps [OF gs] have sl: "sleeps w2 = sleeps w @ [POLL_INTERVAL_S]" by simp
    from get_status_refreshed [OF gs] have pm: "poll_count_max s2 = poll_count_max s"
      by (simp add: refreshed_def same_identity_def)
    show ?thesis
    proof (cases r2)
      case (Inl e)
      with True gs run have "r = Inl e" "w1 = w2" "s1 = s2" by (simp_all del: set_simps)
      with sl pm True show ?thesis by (intro exI [of _ 1]) (auto simp del: set_simps)
    next
      case (Inr u)
      with True gs run have "poll_loop env dec (poll_count + 1) w2 s2 = (r, w1, s1)"
        by (simp del: set_simps)
      from "1.IH" [OF True gs [symmetric] Inr refl this]
      obtain n where n: "n \<le> poll_count_max s2 - (poll_count + 1)"
        "sleeps w1 = sleeps w2 @ replicate n POLL_INTERVAL_S"
        "poll_count_max s1 = poll_count_max s2"
        "\<forall>m. r = Inr m \<longrightarrow> m = poll_count + 1 + n \<and>
            (status s1 \<in> set [EXPERIMENT_PROVISIONING, EXPERIMENT_PROVISIONED,
                               EXPERIMENT_NOT_STARTED, EXPERIMENT_UNKNOWN]
             \<longrightarrow> poll_count_max s2 \<le> m)"
        by blast
      have "replicate (Suc n) POLL_INTERVAL_S = [POLL_INTERVAL_S] @ replicate n POLL_INTERVAL_S"
        by simp
      with n sl pm True show ?thesis
        by (intro exI [of _ "Suc n"]) (auto simp del: set_simps replicate.simps)
    qed
  qed
qed

subsection \<open>Results of the wait\<close>

lemma reload_nodes_cases:
  assumes "reload_nodes env dec w s = (w1, s1)"
  shows "same_identity s s1 \<and> sleeps w1 = sleeps w \<and>
         ((s1 = s \<and> nodes s \<noteq> []) \<or>
          (nodes s = [] \<and> status s1 = EXPERIMENT_FAILED \<and> (s1 = s\<lparr>status := EXPERIMENT_FAILED\<rparr> \<or> nodes s1 = [])) \<or>
          (nodes s = [] \<and> status s1 = status s \<and> nodes s1 \<noteq> []))"
proof (cases "nodes s = []")
  case False
  with assms show ?thesis by (simp add: reload_nodes_def same_identity_def)
next
  case True
  obtain rm w2 s2 where gm: "get_manifests env dec w s = (rm, w2, s2)"
    by (metis prod_cases3)
  from get_manifests_cases [OF gm] True gm assms show ?thesis
    by (cases rm) (auto simp: reload_nodes_def Let_def same_identity_def split: if_splits)
qed

lemma reload_nodes_settled:
  assumes "reload_nodes env dec w s = (w1, s1)" and "status s = EXPERIMENT_READY"
  shows "settled (status s1) s1"
  using reload_nodes_cases [OF assms(1)] assms(2) by (auto simp: settled_def)

lemma final_evaluation_cases:
  assumes "final_evaluation env dec w s = (r, w1, s1)"
  shows "same_identity s s1 \<and> sleeps w1 = sleeps w \<and> r = Inr (status s1) \<and> settled (status s1) s1"
proof (cases "status s = EXPERIMENT_READY")
  case True
  obtain w2 s2 where rl: "reload_nodes env dec w s = (w2, s2)" by (metis prod.exhaust)
  from reload_nodes_cases [OF rl] reload_nodes_settled [OF rl True] True rl assms
  show ?thesis by (auto simp: final_evaluation_def)
next
  case False
  with assms show ?thesis
    by (auto simp: final_evaluation_def settled_def same_identity_def Let_def split: if_splits)
qed

lemma wait_for_ready_cases:
  assumes "wait_for_ready env dec w s = (r, w1, s1)"
  shows "(\<exists>n. n \<le> poll_count_max s \<and> sleeps w1 = sleeps w @ replicate n POLL_INTERVAL_S) \<and>
         (\<forall>st. r = Inr st \<longrightarrow> settled st s1)"
proof -
  obtain r2 w2 s2 where pl: "poll_loop env dec 0 w s = (r2, w2, s2)" by (metis prod_cases3)
  from poll_loop_sleeps [OF pl] obtain n where n: "n \<le> poll_count_max s"
    "sleeps w2 = sleeps w @ replicate n POLL_INTERVAL_S" by auto
  show ?thesis
  proof (cases r2)
    case (Inl e)
    with pl assms n show ?thesis by (auto simp: wait_for_ready_def)
  next
    case (Inr m)
    with pl assms have fe: "final_evaluation env dec w2 s2 = (r, w1, s1)"
      by (simp add: wait_for_ready_def)
    from final_evaluation_cases [OF fe] n show ?thesis by auto
  qed
qed

lemma terminate_cases:
  assumes "terminate env w s = (r, w1, s1)"
  shows "w1 = w @ [Rpc (Terminate_experiment (project_name s) (experiment_name s))] \<and>
         ((r = Inl RpcFault \<and> s1 = s) \<or> (r = Inr (status s) \<and> s1 = s) \<or>
          (r = Inr EXPERIMENT_NULL \<and>
           s1 = s\<lparr>status := EXPERIMENT_NULL, nodes := [], manifests := None\<rparr>))"
  using assms
  by (cases "env w (Terminate_experiment (project_name s) (experiment_name s))")
     (auto simp: terminate_def call_rpc_def split: if_splits)

lemma start_then_wait_cases:
  assumes "start_then_wait env dec w s = (r, w1, s1)"
  shows "waited (poll_count_max s) w w1 \<and> (\<forall>st. r = Inr st \<longrightarrow> settled st s1)"
proof (cases "status s \<notin> set [EXPERIMENT_PROVISIONING, EXPERIMENT_PROVISIONED]")
  case False
  with assms have "wait_for_ready env dec w s = (r, w1, s1)"
    by (simp add: start_then_wait_def del: set_simps)
  from wait_for_ready_cases [OF this] show ?thesis
    unfolding waited_def by (metis append_Nil)
next
  case True
  let ?c = "Start_experiment (experiment_name s) (project_name s) (profile_name s)"
  show ?thesis
  proof (cases "env w ?c")
    case Rpc_raises
    with True assms have "r = Inl RpcFault" "w1 = w @ [Rpc ?c]"
      by (auto simp: start_then_wait_def call_rpc_def simp del: set_simps)
    then show ?thesis by (auto simp: waited_def intro!: exI [of _ 0])
  next
    case (Rpc_returns rval resp)
    show ?thesis
    proof (cases "rval = RESPONSE_SUCCESS")
      case False
      with Rpc_returns True assms
      have "r = Inr EXPERIMENT_FAILED" "w1 = w @ [Rpc ?c]" "s1 = s\<lparr>status := EXPERIMENT_FAILED\<rparr>"
        by (auto simp: start_then_wait_def call_rpc_def Let_def simp del: set_simps)
      then show ?thesis by (auto simp: waited_def settled_def intro!: exI [of _ 0])
    next
      case ok: True
      obtain r2 w2 s2 where gs: "get_status env dec (w @ [Rpc ?c] @ [Sleep 5]) s = (r2, w2, s2)"
        by (metis prod_cases3)
      from get_status_sleeps [OF gs] have sl: "sleeps w2 = sleeps w @ [5]" by simp
      from get_status_refreshed [OF gs] have pm: "poll_count_max s2 = poll_count_max s"
        by (simp add: refreshed_def same_identity_def)
      show ?thesis
      proof (cases r2)
        case (Inl e)
        with gs ok Rpc_returns True assms have "r = Inl e" "w1 = w2"
          by (auto simp: start_then_wait_def call_rpc_def simp del: set_simps)
        with sl show ?thesis by (auto simp: waited_def intro!: exI [of _ 0])
      next
        case (Inr u)
        show ?thesis
        proof (cases "status s2 = EXPERIMENT_FAILED")
          case True
          with Inr gs ok Rpc_returns \<open>status s \<notin> set [EXPERIMENT_PROVISIONING, EXPERIMENT_PROVISIONED]\<close> assms
          have "r = Inr EXPERIMENT_FAILED" "w1 = w2" "s1 = s2"
            by (auto simp: start_then_wait_def call_rpc_def simp del: set_simps)
          with sl True show ?thesis by (auto simp: waited_def settled_def intro!: exI [of _ 0])
        next
          case False
          with Inr gs ok Rpc_returns \<open>status s \<notin> set [EXPERIMENT_PROVISIONING, EXPERIMENT_PROVISIONED]\<close> assms
          have "wait_for_ready env dec w2 s2 = (r, w1, s1)"
            by (simp add: start_then_wait_def call_rpc_def del: set_simps)
          from wait_for_ready_cases [OF this] sl pm show ?thesis
            unfolding waited_def by (metis append.assoc)
        qed
      qed
    qed
  qed
qed

lemma check_status_cases:
  assumes "check_status env dec w s = (r, w1, s1)"
  shows "\<exists>r0. get_status env dec w s = (r0, w1, s1) \<and>
              (case r0 of Inl e \<Rightarrow> r = Inl e | Inr u \<Rightarrow> r = Inr (status s1))"
proof -
  obtain r0 w0 s0 where gs: "get_status env dec w s = (r0, w0, s0)" by (metis prod_cases3)
  with assms show ?thesis by (cases r0) (auto simp: check_status_def)
qed

lemma start_and_wait_cases:
  assumes "start_and_wait env dec w s = (r, w1, s1)"
  shows "waited (poll_count_max s) w w1 \<and> (\<forall>st. r = Inr st \<longrightarrow> settled st s1)"
proof -
  obtain r0 w0 s0 where cs: "check_status env dec w s = (r0, w0, s0)" by (metis prod_cases3)
  from check_status_cases [OF cs] obtain rg where
    gs: "get_status env dec w s = (rg, w0, s0)"
    and rg: "case rg of Inl e \<Rightarrow> r0 = Inl e | Inr u \<Rightarrow> r0 = Inr (status s0)" by blast
  from get_status_sleeps [OF gs] have sl: "sleeps w0 = sleeps w" .
  from get_status_refreshed [OF gs] have pm: "poll_count_max s0 = poll_count_max s"
    by (simp add: refreshed_def same_identity_def)
  have lift: "waited (poll_count_max s) w w1" if "waited (poll_count_max s0) w0 w1"
    using that sl pm by (simp add: waited_def)
  have lift': "waited (poll_count_max s) w w1" if "sleeps w1 = sleeps w0"
    using that sl by (auto simp: waited_def intro!: exI [of _ 0])
  show ?thesis
  proof (cases rg)
    case (Inl e)
    with rg cs assms have "r = Inl e" "w1 = w0" by (auto simp: start_and_wait_def)
    with lift' show ?thesis by simp
  next
    case (Inr u)
    with rg have r0: "r0 = Inr (status s0)" by simp
    show ?thesis
    proof (cases "status s0")
      case EXPERIMENT_READY
      obtain w2 s2 where rl: "reload_nodes env dec w0 s0 = (w2, s2)" by (metis prod.exhaust)
      with EXPERIMENT_READY r0 cs assms have "r = Inr (status s2)" "w1 = w2" "s1 = s2"
        by (auto simp: start_and_wait_def)
      with reload_nodes_cases [OF rl] reload_nodes_settled [OF rl EXPERIMENT_READY] lift'
      show ?thesis by simp
    next
      case EXPERIMENT_FAILED
      obtain rt wt st where tm: "terminate env w0 s0 = (rt, wt, st)" by (metis prod_cases3)
      from terminate_cases [OF tm] have slt: "sleeps wt = sleeps w0"
        and pmt: "poll_count_max st = poll_count_max s0" by auto
      show ?thesis
      proof (cases rt)
        case (Inl e)
        with tm EXPERIMENT_FAILED r0 cs assms have "r = Inl e" "w1 = wt"
          by (auto simp: start_and_wait_def)
        with slt lift' show ?thesis by simp
      next
        case (Inr t)
        with tm EXPERIMENT_FAILED r0 cs assms have "start_then_wait env dec wt st = (r, w1, s1)"
          by (simp add: start_and_wait_def)
        from start_then_wait_cases [OF this] slt pmt lift show ?thesis
          by (simp add: waited_def)
      qed
    next
      case EXPERIMENT_NOT_STARTED
      with r0 cs assms have "start_then_wait env dec w0 s0 = (r, w1, s1)"
        by (simp add: start_and_wait_def)
      from start_then_wait_cases [OF this] lift show ?thesis by simp
    next
      case EXPERIMENT_PROVISIONING
      with r0 cs assms have "start_then_wait env dec w0 s0 = (r, w1, s1)"
        by (simp add: start_and_wait_def)
      from start_then_wait_cases [OF this] lift show ?thesis by simp
    next
      case EXPERIMENT_PROVISIONED
      with r0 cs assms have "start_then_wait env dec w0 s0 = (r, w1, s1)"
        by (simp add: start_and_wait_def)
      from start_then_wait_cases [OF this] lift show ?thesis by simp
    next
      case EXPERIMENT_NULL
      with r0 cs assms have "start_then_wait env dec w0 s0 = (r, w1, s1)"
        by (simp add: start_and_wait_def)
      from start_then_wait_cases [OF this] lift show ?thesis by simp
    next
      case EXPERIMENT_UNKNOWN
      with r0 cs assms have "start_then_wait env dec w0 s0 = (r, w1, s1)"
        by (simp add: start_and_wait_def)
      from start_then_wait_cases [OF this] lift show ?thesis by simp
    qed
  qed
qed

lemma poll_loop_exhausted:
  assumes "poll_loop env dec 0 w0 s0 = (Inr k, w2, s2)"
  shows "k \<le> poll_count_max s0 \<and>
         (status s2 \<in> {EXPERIMENT_PROVISIONING, EXPERIMENT_PROVISIONED,
                        EXPERIMENT_NOT_STARTED, EXPERIMENT_UNKNOWN} \<longrightarrow>
            k = poll_count_max s0 \<and>
            wait_for_ready env dec w0 s0 =
              (Inr EXPERIMENT_FAILED, w2, s2\<lparr>status := EXPERIMENT_FAILED\<rparr>)) \<and>
         (status s2 = EXPERIMENT_NULL \<longrightarrow>
            wait_for_ready env dec w0 s0 = (Inr EXPERIMENT_NULL, w2, s2))"
proof -
  from poll_loop_sleeps [OF assms] obtain n where
    n: "n \<le> poll_count_max s0" "k = n"
       "status s2 \<in> set [EXPERIMENT_PROVISIONING, EXPERIMENT_PROVISIONED,
                          EXPERIMENT_NOT_STARTED, EXPERIMENT_UNKNOWN] \<longrightarrow> poll_count_max s0 \<le> k"
    by auto
  have "wait_for_ready env dec w0 s0 = final_evaluation env dec w2 s2"
    using assms by (simp add: wait_for_ready_def)
  with n show ?thesis by (auto simp: final_evaluation_def Let_def)
qed

subsection \<open>Properties kept by the wait\<close>

lemma final_evaluation_preserves:
  assumes rl: "\<And>w s w1 s1. P s \<Longrightarrow> status s = EXPERIMENT_READY \<Longrightarrow>
                 reload_nodes env dec w s = (w1, s1) \<Longrightarrow> P s1"
    and fl: "\<And>s. P s \<Longrightarrow> P (s\<lparr>status := EXPERIMENT_FAILED\<rparr>)"
    and P: "P s" and run: "final_evaluation env dec w s = (r, w1, s1)"
  shows "P s1"
proof (cases "status s = EXPERIMENT_READY")
  case True
  obtain w2 s2 where r2: "reload_nodes env dec w s = (w2, s2)" by (metis prod.exhaust)
  with True run have "s1 = s2" by (simp add: final_evaluation_def)
  with rl [OF P True r2] show ?thesis by simp
next
  case False
  with run have "s1 = s \<or> s1 = s\<lparr>status := EXPERIMENT_FAILED\<rparr>"
    by (auto simp: final_evaluation_def Let_def split: if_splits)
  with P fl [OF P] show ?thesis by auto
qed

lemma wait_for_ready_preserves:
  assumes gs: "\<And>w s r w1 s1. P s \<Longrightarrow> get_status env dec w s = (r, w1, s1) \<Longrightarrow> P s1"
    and rl: "\<And>w s w1 s1. P s \<Longrightarrow> status s = EXPERIMENT_READY \<Longrightarrow>
                 reload_nodes env dec w s = (w1, s1) \<Longrightarrow> P s1"
    and fl: "\<And>s. P s \<Longrightarrow> P (s\<lparr>status := EXPERIMENT_FAILED\<rparr>)"
    and P: "P s" and run: "wait_for_ready env dec w s = (r, w1, s1)"
  shows "P s1"
proof -
  obtain r2 w2 s2 where pl: "poll_loop env dec 0 w s = (r2, w2, s2)" by (metis prod_cases3)
  have P2: "P s2" by (rule poll_loop_preserves [of P, OF gs P pl])
  show ?thesis
  proof (cases r2)
    case (Inl e)
    with pl run have "s1 = s2" by (simp add: wait_for_ready_def)
    with P2 show ?thesis by simp
  next
    case (Inr n)
    with pl run have "final_evaluation env dec w2 s2 = (r, w1, s1)"
      by (simp add: wait_for_ready_def)
    from final_evaluation_preserves [of P, OF rl fl P2 this] show ?thesis .
  qed
qed

lemma start_then_wait_preserves:
  assumes gs: "\<And>w s r w1 s1. P s \<Longrightarrow> get_status env dec w s = (r, w1, s1) \<Longrightarrow> P s1"
    and rl: "\<And>w s w1 s1. P s \<Longrightarrow> status s = EXPERIMENT_READY \<Longrightarrow>
                 reload_nodes env dec w s = (w1, s1) \<Longrightarrow> P s1"
    and fl: "\<And>s. P s \<Longrightarrow> P (s\<lparr>status := EXPERIMENT_FAILED\<rparr>)"
    and P: "P s" and run: "start_then_wait env dec w s = (r, w1, s1)"
  shows "P s1"
proof (cases "status s \<notin> set [EXPERIMENT_PROVISIONING, EXPERIMENT_PROVISIONED]")
  case False
  with run have "wait_for_ready env dec w s = (r, w1, s1)"
    by (simp add: start_then_wait_def del: set_simps)
  from wait_for_ready_preserves [of P, OF gs rl fl P this] show ?thesis .
next
  case True
  let ?c = "Start_experiment (experiment_name s) (project_name s) (profile_name s)"
  show ?thesis
  proof (cases "env w ?c")
    case Rpc_raises
    with True run have "s1 = s"
      by (auto simp: start_then_wait_def call_rpc_def simp del: set_simps)
    with P show ?thesis by simp
  next
    case (Rpc_returns rval resp)
    show ?thesis
    proof (cases "rval = RESPONSE_SUCCESS")
      case False
      with Rpc_returns True run have "s1 = s\<lparr>status := EXPERIMENT_FAILED\<rparr>"
        by (auto simp: start_then_wait_def call_rpc_def Let_def simp del: set_simps)
      with fl [OF P] show ?thesis by simp
    next
      case ok: True
      obtain r2 w2 s2 where g: "get_status env dec (w @ [Rpc ?c] @ [Sleep 5]) s = (r2, w2, s2)"
        by (metis prod_cases3)
      have P2: "P s2" by (rule gs [OF P g])
      show ?thesis
      proof (cases "\<exists>u. r2 = Inr u \<and> status s2 \<noteq> EXPERIMENT_FAILED")
        case False
        with g ok Rpc_returns True run have "s1 = s2"
          by (cases r2) (auto simp: start_then_wait_def call_rpc_def simp del: set_simps)
        with P2 show ?thesis by simp
      next
        case wait: True
        with g ok Rpc_returns True run have "wait_for_ready env dec w2 s2 = (r, w1, s1)"
          by (auto simp: start_then_wait_def call_rpc_def simp del: set_simps)
        from wait_for_ready_preserves [of P, OF gs rl fl P2 this] show ?thesis .
      qed
    qed
  qed
qed

lemma start_and_wait_preserves:
  assumes gs: "\<And>w s r w1 s1. P s \<Longrightarrow> get_status env dec w s = (r, w1, s1) \<Longrightarrow> P s1"
    and rl: "\<And>w s w1 s1. P s \<Longrightarrow> status s = EXPERIMENT_READY \<Longrightarrow>
                 reload_nodes env dec w s = (w1, s1) \<Longrightarrow> P s1"
    and fl: "\<And>s. P s \<Longrightarrow> P (s\<lparr>status := EXPERIMENT_FAILED\<rparr>)"
    and tm: "\<And>s. P s \<Longrightarrow> P (s\<lparr>status := EXPERIMENT_NULL, nodes := [], manifests := None\<rparr>)"
    and P: "P s" and run: "start_and_wait env dec w s = (r, w1, s1)"
  shows "P s1"
proof -
  obtain r0 w0 s0 where cs: "check_status env dec w s = (r0, w0, s0)" by (metis prod_cases3)
  from check_status_cases [OF cs] obtain rg where
    g: "get_status env dec w s = (rg, w0, s0)"
    and rg: "case rg of Inl e \<Rightarrow> r0 = Inl e | Inr u \<Rightarrow> r0 = Inr (status s0)" by blast
  have P0: "P s0" by (rule gs [OF P g])
  show ?thesis
  proof (cases rg)
    case (Inl e)
    with rg cs run have "s1 = s0" by (simp add: start_and_wait_def)
    with P0 show ?thesis by simp
  next
    case (Inr u)
    with rg have r0: "r0 = Inr (status s0)" by simp
    have stw: "P s1" if "start_then_wait env dec w0 s0 = (r, w1, s1)"
      by (rule start_then_wait_preserves [of P, OF gs rl fl P0 that])
    show ?thesis
    proof (cases "status s0")
      case EXPERIMENT_READY
      obtain w2 s2 where r2: "reload_nodes env dec w0 s0 = (w2, s2)" by (metis prod.exhaust)
      with EXPERIMENT_READY r0 cs run have "s1 = s2" by (auto simp: start_and_wait_def)
      with rl [OF P0 EXPERIMENT_READY r2] show ?thesis by simp
    next
      case EXPERIMENT_FAILED
      obtain rt wt st where t: "terminate env w0 s0 = (rt, wt, st)" by (metis prod_cases3)
      from terminate_cases [OF t] P0 tm [OF P0] have Pt: "P st" by auto
      show ?thesis
      proof (cases rt)
        case (Inl e)
        with t EXPERIMENT_FAILED r0 cs run have "s1 = st" by (auto simp: start_and_wait_def)
        with Pt show ?thesis by simp
      next
        case (Inr x)
        with t EXPERIMENT_FAILED r0 cs run have "start_then_wait env dec wt st = (r, w1, s1)"
          by (simp add: start_and_wait_def)
        from start_then_wait_preserves [of P, OF gs rl fl Pt this] show ?thesis .
      qed
    next
      case EXPERIMENT_NOT_STARTED
      with r0 cs run stw show ?thesis by (simp add: start_and_wait_def)
    next
      case EXPERIMENT_PROVISIONING
      with r0 cs run stw show ?thesis by (simp add: start_and_wait_def)
    next
      case EXPERIMENT_PROVISIONED
      with r0 cs run stw show ?thesis by (simp add: start_and_wait_def)
    next
      case EXPERIMENT_NULL
      with r0 cs run stw show ?thesis by (simp add: start_and_wait_def)
    next
      case EXPERIMENT_UNKNOWN
      with r0 cs run stw show ?thesis by (simp add: start_and_wait_def)
    qed
  qed
qed

subsection \<open>The invariant of the reachable states\<close>

lemma ctrl_inv_failed: "ctrl_inv s \<Longrightarrow> ctrl_inv (s\<lparr>status := EXPERIMENT_FAILED\<rparr>)"
  by (simp add: ctrl_inv_def)

lemma ctrl_inv_null:
  "ctrl_inv s \<Longrightarrow> ctrl_inv (s\<lparr>status := EXPERIMENT_NULL, nodes := [], manifests := None\<rparr>)"
  by (simp add: ctrl_inv_def)

lemma get_status_inv:
  "ctrl_inv s \<Longrightarrow> get_status env dec w s = (r, w1, s1) \<Longrightarrow> ctrl_inv s1"
  using get_status_refreshed refreshed_inv by blast

lemma reload_nodes_inv:
  assumes "ctrl_inv s" "status s = EXPERIMENT_READY" "reload_nodes env dec w s = (w1, s1)"
  shows "ctrl_inv s1"
  using reload_nodes_cases [OF assms(3)] assms(1,2)
  by (auto simp: ctrl_inv_def same_identity_def)

lemma start_and_wait_inv:
  assumes "ctrl_inv s" "start_and_wait env dec w s = (r, w1, s1)"
  shows "ctrl_inv s1"
  by (rule start_and_wait_preserves [of ctrl_inv, OF get_status_inv reload_nodes_inv
        ctrl_inv_failed ctrl_inv_null assms])

lemma terminate_inv:
  assumes "ctrl_inv s" "terminate env w s = (r, w1, s1)"
  shows "ctrl_inv s1"
  using terminate_cases [OF assms(2)] assms(1) ctrl_inv_null [OF assms(1)] by auto

lemma check_status_inv:
  assumes "ctrl_inv s" "check_status env dec w s = (r, w1, s1)"
  shows "ctrl_inv s1"
  using check_status_cases [OF assms(2)] get_status_inv [OF assms(1)] by blast

lemma init_inv: "init name project profile = Inr s \<Longrightarrow> ctrl_inv s"
  by (auto simp: init_def ctrl_inv_def split: if_splits)

lemma reachable_inv: "reachable s \<Longrightarrow> ctrl_inv s"
proof (induction rule: reachable.induct)
  case (reach_init name project profile s)
  then show ?case by (rule init_inv)
next
  case (reach_check_status s env dec w r w1 s1)
  then show ?case using check_status_inv by blast
next
  case (reach_start_and_wait s env dec w r w1 s1)
  then show ?case using start_and_wait_inv by blast
next
  case (reach_terminate s env w r w1 s1)
  then show ?case using terminate_inv by blast
qed

lemma ex_fresh_reachable: "reachable ex_fresh"
proof -
  have "init ''exp'' ''proj'' ''prof'' = Inr ex_fresh"
    by (simp add: init_def ex_fresh_def MAX_NAME_LENGTH_def PROVISION_TIMEOUT_S_def POLL_INTERVAL_S_def)
  then show ?thesis by (rule reach_init)
qed

lemma ex_after_ready_reachable: "reachable ex_after_ready"
proof -
  have "check_status env_ready dec_one [] ex_fresh =
          (fst (check_status env_ready dec_one [] ex_fresh),
           fst (snd (check_status env_ready dec_one [] ex_fresh)), ex_after_ready)"
    by (simp add: ex_after_ready_def)
  with ex_fresh_reachable show ?thesis by (rule reach_check_status)
qed

lemma ex_stale_reachable: "reachable ex_stale"
proof -
  have "check_status env_failed dec_one [] ex_after_ready =
          (fst (check_status env_failed dec_one [] ex_after_ready),
           fst (snd (check_status env_failed dec_one [] ex_after_ready)), ex_stale)"
    by (simp add: ex_stale_def)
  with ex_after_ready_reachable show ?thesis by (rule reach_check_status)
qed

lemma ex_after_ready_value: "ex_after_ready = ex_ready"
  by code_simp

lemma ex_stale_value: "ex_stale = ex_ready\<lparr>status := EXPERIMENT_FAILED\<rparr>"
  by code_simp

subsection \<open>The branches of a status refresh\<close>

lemma no_such_experiment_iff:
  "no_such_experiment rval resp \<longleftrightarrow>
     rval = RESPONSE_BADARGS \<or>
     (rval = RESPONSE_ERROR \<and>
      (\<exists>kvs. resp = Resp_Dict kvs \<and> contains (output_or kvs []) ''No such experiment''))"
proof -
  have "\<not> contains (output_or [] []) ''No such experiment''"
    by (simp add: contains_def output_or_def)
  then show ?thesis
    by (cases resp) (auto simp: no_such_experiment_def)
qed

lemma get_status_ready:
  assumes ans: "env w (Get_experiment_status (project_name s) (experiment_name s)) =
                  Rpc_returns RESPONSE_SUCCESS (Resp_Dict kvs)"
    and rdy: "startswith (strip (output_or kvs [])) ''Status: ready''"
    and run: "get_status env dec w s = (r, w1, s1)"
    and w0: "w0 = w @ [Rpc (Get_experiment_status (project_name s) (experiment_name s))]"
  shows "r = Inr () \<and>
         (if status s = EXPERIMENT_READY \<and> nodes s \<noteq> [] then w1 = w0 \<and> s1 = s
          else w1 = w0 @ [Rpc (Get_experiment_manifests (project_name s) (experiment_name s))] \<and>
               (case get_manifests env dec w0 s of
                  (Inl e, w2, s2) \<Rightarrow> s1 = s\<lparr>status := EXPERIMENT_FAILED\<rparr>
                | (Inr u, w2, s2) \<Rightarrow>
                    s1 = (parse_manifests s2)
                           \<lparr>status := (if nodes (parse_manifests s2) = []
                                       then EXPERIMENT_FAILED else EXPERIMENT_READY)\<rparr>))"
proof -
  obtain st w2 s2 where rn: "ready_new_status env dec w0 s = (st, w2, s2)" by (metis prod_cases3)
  from ready_new_status_shape [OF rn] have st2: "status s2 = status s" by simp
  from ans rdy run rn w0 have res: "r = Inr ()" "w1 = w2" "s1 = s2\<lparr>status := st\<rparr>"
    using st2 by (auto simp: get_status_def call_rpc_def Let_def update_status_same)
  show ?thesis
  proof (cases "status s = EXPERIMENT_READY \<and> nodes s \<noteq> []")
    case True
    with rn have "st = EXPERIMENT_READY" "w2 = w0" "s2 = s" by (auto simp: ready_new_status_def)
    with res True show ?thesis by auto
  next
    case False
    obtain rm w3 s3 where gm: "get_manifests env dec w0 s = (rm, w3, s3)" by (metis prod_cases3)
    from get_manifests_cases [OF gm] False gm rn res w0 show ?thesis
      by (cases rm) (auto simp: ready_new_status_def Let_def split: if_splits)
  qed
qed

lemma get_status_not_ready:
  assumes ans: "env w (Get_experiment_status (project_name s) (experiment_name s)) =
                  Rpc_returns RESPONSE_SUCCESS (Resp_Dict kvs)"
    and rdy: "\<not> startswith (strip (output_or kvs [])) ''Status: ready''"
  shows "get_status env dec w s =
           (Inr (), w @ [Rpc (Get_experiment_status (project_name s) (experiment_name s))],
            s\<lparr>status := other_new_status (strip (output_or kvs []))\<rparr>)"
  using assms by (simp add: get_status_def call_rpc_def Let_def update_status_same)

lemma get_status_missing:
  assumes ans: "env w (Get_experiment_status (project_name s) (experiment_name s)) =
                  Rpc_returns rval resp"
    and ns: "no_such_experiment rval resp"
  shows "get_status env dec w s =
           (Inr (), w @ [Rpc (Get_experiment_status (project_name s) (experiment_name s))],
            if status s \<noteq> EXPERIMENT_NULL
            then s\<lparr>status := EXPERIMENT_NULL, nodes := [], manifests := None\<rparr> else s)"
  using assms by (simp add: get_status_def call_rpc_def)

lemma get_status_rpc_error:
  assumes ans: "env w (Get_experiment_status (project_name s) (experiment_name s)) =
                  Rpc_returns rval resp"
    and ns: "\<not> no_such_experiment rval resp" and ne: "rval \<noteq> RESPONSE_SUCCESS"
  shows "get_status env dec w s =
           (Inr (), w @ [Rpc (Get_experiment_status (project_name s) (experiment_name s))],
            s\<lparr>status := EXPERIMENT_UNKNOWN\<rparr>)"
  using assms by (auto simp: get_status_def call_rpc_def)

lemma null_state_cleared:
  assumes "ctrl_inv s" "status s = EXPERIMENT_NULL"
  shows "s\<lparr>status := EXPERIMENT_NULL, nodes := [], manifests := None\<rparr> = s"
  using assms by (simp add: ctrl_inv_def)

lemma get_status_no_payload:
  assumes ans: "env w (Get_experiment_status (project_name s) (experiment_name s)) =
                  Rpc_returns RESPONSE_SUCCESS Resp_None"
  shows "get_status env dec w s =
           (Inl AttributeError, w @ [Rpc (Get_experiment_status (project_name s) (experiment_name s))], s)"
  using assms by (simp add: get_status_def call_rpc_def)

subsection \<open>Runs without nodes\<close>

lemma get_manifests_fetched:
  assumes "get_manifests env dec w s = (Inr u, w1, s1)" and "nodes s = []"
  shows "nodes (parse_manifests s1) =
           fetched_nodes dec (env w (Get_experiment_manifests (project_name s) (experiment_name s)))"
  using assms
  by (auto simp: get_manifests_def call_rpc_def fetched_nodes_def parse_manifests_def
           split: rpc_result.splits response.splits option.splits if_splits)

lemma get_manifests_keeps_empty:
  assumes z: "yields_no_nodes env dec" and e: "nodes s = []"
    and gm: "get_manifests env dec w s = (rm, w1, s1)"
  shows "case rm of Inl x \<Rightarrow> s1 = s | Inr u \<Rightarrow> nodes (parse_manifests s1) = []"
proof (cases rm)
  case (Inl x)
  with get_manifests_cases [OF gm] show ?thesis by auto
next
  case (Inr u)
  from z have "fetched_nodes dec
      (env w (Get_experiment_manifests (project_name s) (experiment_name s))) = []"
    unfolding yields_no_nodes_def by blast
  with get_manifests_fetched [OF gm [unfolded Inr] e] Inr show ?thesis by simp
qed

lemma get_status_keeps_empty:
  assumes z: "yields_no_nodes env dec" and e: "nodes s = []"
    and run: "get_status env dec w s = (r, w1, s1)"
  shows "nodes s1 = []"
  using get_status_cases [OF run]
proof (elim disjE conjE exE bexE)
  fix st s2
  assume rn: "ready_new_status env dec
      (w @ [Rpc (Get_experiment_status (project_name s) (experiment_name s))]) s = (st, w1, s2)"
    and s1: "s1 = s2\<lparr>status := st\<rparr>"
  from ready_new_status_cases [OF rn] e have
    "\<exists>rm s3. get_manifests env dec
        (w @ [Rpc (Get_experiment_status (project_name s) (experiment_name s))]) s = (rm, w1, s3) \<and>
       (case rm of Inl e \<Rightarrow> st = EXPERIMENT_FAILED \<and> s2 = s3
        | Inr u \<Rightarrow> s2 = parse_manifests s3 \<and>
                   st = (if nodes s2 = [] then EXPERIMENT_FAILED else EXPERIMENT_READY))"
    by simp
  then obtain rm s3 where gm: "get_manifests env dec
        (w @ [Rpc (Get_experiment_status (project_name s) (experiment_name s))]) s = (rm, w1, s3)"
    and c: "case rm of Inl e \<Rightarrow> st = EXPERIMENT_FAILED \<and> s2 = s3
            | Inr u \<Rightarrow> s2 = parse_manifests s3 \<and>
                   st = (if nodes s2 = [] then EXPERIMENT_FAILED else EXPERIMENT_READY)" by blast
  from get_manifests_keeps_empty [OF z e gm] e c s1 show ?thesis by (cases rm) auto
qed (use e in auto)

lemma reload_nodes_keeps_empty:
  assumes z: "yields_no_nodes env dec" and e: "nodes s = []"
    and run: "reload_nodes env dec w s = (w1, s1)"
  shows "nodes s1 = []"
proof -
  obtain rm w2 s2 where gm: "get_manifests env dec w s = (rm, w2, s2)" by (metis prod_cases3)
  from get_manifests_keeps_empty [OF z e gm] gm e run show ?thesis
    by (cases rm) (auto simp: reload_nodes_def Let_def)
qed

lemma start_and_wait_keeps_empty:
  assumes z: "yields_no_nodes env dec" and e: "nodes s = []"
    and run: "start_and_wait env dec w s = (r, w1, s1)"
  shows "nodes s1 = []"
proof (rule start_and_wait_preserves [of "\<lambda>s. nodes s = []", OF _ _ _ _ e run])
  show "\<And>w s r w1 s1. nodes s = [] \<Longrightarrow> get_status env dec w s = (r, w1, s1) \<Longrightarrow> nodes s1 = []"
    using get_status_keeps_empty [OF z] by blast
  show "\<And>w s w1 s1. nodes s = [] \<Longrightarrow> status s = EXPERIMENT_READY \<Longrightarrow>
          reload_nodes env dec w s = (w1, s1) \<Longrightarrow> nodes s1 = []"
    using reload_nodes_keeps_empty [OF z] by blast
qed simp_all

lemma get_status_not_null:
  assumes nm: "never_missing env" and run: "get_status env dec w s = (Inr u, w1, s1)"
  shows "status s1 \<noteq> EXPERIMENT_NULL"
proof (cases "env w (Get_experiment_status (project_name s) (experiment_name s))")
  case Rpc_raises
  with run show ?thesis by (simp add: get_status_def call_rpc_def)
next
  case (Rpc_returns rval resp)
  with nm have ns: "\<not> no_such_experiment rval resp" unfolding never_missing_def by blast
  show ?thesis
  proof (cases "rval = RESPONSE_SUCCESS")
    case False
    from get_status_rpc_error [where env=env and w=w and s=s and dec=dec, OF Rpc_returns ns False] run
    show ?thesis by auto
  next
    case True
    show ?thesis
    proof (cases resp)
      case Resp_None
      with True Rpc_returns run show ?thesis by (simp add: get_status_def call_rpc_def)
    next
      case (Resp_Dict kvs)
      with True Rpc_returns
      have ans: "env w (Get_experiment_status (project_name s) (experiment_name s)) =
                   Rpc_returns RESPONSE_SUCCESS (Resp_Dict kvs)" by simp
      show ?thesis
      proof (cases "startswith (strip (output_or kvs [])) ''Status: ready''")
        case False
        have "other_new_status (strip (output_or kvs [])) \<noteq> EXPERIMENT_NULL"
          by (simp add: other_new_status_def)
        with get_status_not_ready [where env=env and w=w and s=s and dec=dec, OF ans False] run
        show ?thesis by auto
      next
        case rdy: True
        obtain rm w2 s2 where gm: "get_manifests env dec
            (w @ [Rpc (Get_experiment_status (project_name s) (experiment_name s))]) s = (rm, w2, s2)"
          by (metis prod_cases3)
        from get_status_ready [where env=env and w=w and s=s, OF ans rdy run refl] gm
        show ?thesis by (cases rm) (auto split: if_splits)
      qed
    qed
  qed
qed

lemma get_status_stays_not_null:
  assumes nm: "never_missing env" and n: "status s \<noteq> EXPERIMENT_NULL"
    and run: "get_status env dec w s = (r, w1, s1)"
  shows "status s1 \<noteq> EXPERIMENT_NULL"
proof (cases r)
  case (Inl e)
  with get_status_cases [OF run] have "s1 = s" by auto
  with n show ?thesis by simp
next
  case (Inr u)
  with run get_status_not_null [OF nm] show ?thesis by blast
qed

lemma final_evaluation_not_null:
  assumes n: "status s \<noteq> EXPERIMENT_NULL" and run: "final_evaluation env dec w s = (r, w1, s1)"
  shows "status s1 \<noteq> EXPERIMENT_NULL"
proof (cases "status s = EXPERIMENT_READY")
  case True
  obtain w2 s2 where rl: "reload_nodes env dec w s = (w2, s2)" by (metis prod.exhaust)
  from reload_nodes_cases [OF rl] True rl run show ?thesis
    by (auto simp: final_evaluation_def)
next
  case False
  with n run show ?thesis by (auto simp: final_evaluation_def Let_def split: if_splits)
qed

lemma wait_for_ready_not_null:
  assumes nm: "never_missing env" and n: "status s \<noteq> EXPERIMENT_NULL"
    and run: "wait_for_ready env dec w s = (Inr st, w1, s1)"
  shows "status s1 \<noteq> EXPERIMENT_NULL"
proof -
  obtain r2 w2 s2 where pl: "poll_loop env dec 0 w s = (r2, w2, s2)" by (metis prod_cases3)
  have n2: "status s2 \<noteq> EXPERIMENT_NULL"
    by (rule poll_loop_preserves [of "\<lambda>s. status s \<noteq> EXPERIMENT_NULL", OF _ n pl])
       (use get_status_stays_not_null [OF nm] in blast)
  from pl run obtain k where "r2 = Inr k" and fe: "final_evaluation env dec w2 s2 = (Inr st, w1, s1)"
    by (cases r2) (auto simp: wait_for_ready_def)
  from final_evaluation_not_null [OF n2 fe] show ?thesis .
qed

lemma start_then_wait_not_null:
  assumes nm: "never_missing env" and run: "start_then_wait env dec w s = (Inr st, w1, s1)"
  shows "status s1 \<noteq> EXPERIMENT_NULL"
proof (cases "status s \<notin> set [EXPERIMENT_PROVISIONING, EXPERIMENT_PROVISIONED]")
  case False
  with run have wr: "wait_for_ready env dec w s = (Inr st, w1, s1)"
    by (simp add: start_then_wait_def del: set_simps)
  from False have "status s \<noteq> EXPERIMENT_NULL" by auto
  from wait_for_ready_not_null [OF nm this wr] show ?thesis .
next
  case True
  let ?c = "Start_experiment (experiment_name s) (project_name s) (profile_name s)"
  show ?thesis
  proof (cases "env w ?c")
    case Rpc_raises
    with True run show ?thesis
      by (auto simp: start_then_wait_def call_rpc_def simp del: set_simps)
  next
    case (Rpc_returns rval resp)
    show ?thesis
    proof (cases "rval = RESPONSE_SUCCESS")
      case False
      with Rpc_returns True run show ?thesis
        by (auto simp: start_then_wait_def call_rpc_def Let_def simp del: set_simps)
    next
      case ok: True
      obtain r2 w2 s2 where g: "get_status env dec (w @ [Rpc ?c] @ [Sleep 5]) s = (r2, w2, s2)"
        by (metis prod_cases3)
      show ?thesis
      proof (cases r2)
        case (Inl e)
        with g ok Rpc_returns True run show ?thesis
          by (auto simp: start_then_wait_def call_rpc_def simp del: set_simps)
      next
        case (Inr u)
        with g get_status_not_null [OF nm] have n2: "status s2 \<noteq> EXPERIMENT_NULL" by blast
        show ?thesis
        proof (cases "status s2 = EXPERIMENT_FAILED")
          case f: True
          with Inr g ok Rpc_returns True run have "s1 = s2"
            by (auto simp: start_then_wait_def call_rpc_def simp del: set_simps)
          with n2 show ?thesis by simp
        next
          case f: False
          with Inr g ok Rpc_returns True run
          have "wait_for_ready env dec w2 s2 = (Inr st, w1, s1)"
            by (auto simp: start_then_wait_def call_rpc_def simp del: set_simps)
          from wait_for_ready_not_null [OF nm n2 this] show ?thesis .
        qed
      qed
    qed
  qed
qed

lemma start_and_wait_not_null:
  assumes nm: "never_missing env" and run: "start_and_wait env dec w s = (Inr st, w1, s1)"
  shows "status s1 \<noteq> EXPERIMENT_NULL"
proof -
  obtain r0 w0 s0 where cs: "check_status env dec w s = (r0, w0, s0)" by (metis prod_cases3)
  from check_status_cases [OF cs] obtain rg where
    g: "get_status env dec w s = (rg, w0, s0)"
    and rg: "case rg of Inl e \<Rightarrow> r0 = Inl e | Inr u \<Rightarrow> r0 = Inr (status s0)" by blast
  show ?thesis
  proof (cases rg)
    case (Inl e)
    with rg cs run show ?thesis by (simp add: start_and_wait_def)
  next
    case (Inr u)
    with rg have r0: "r0 = Inr (status s0)" by simp
    have stw: "status s1 \<noteq> EXPERIMENT_NULL" if "start_then_wait env dec w0 s0 = (Inr st, w1, s1)"
      by (rule start_then_wait_not_null [OF nm that])
    show ?thesis
    proof (cases "status s0")
      case EXPERIMENT_READY
      obtain w2 s2 where r2: "reload_nodes env dec w0 s0 = (w2, s2)" by (metis prod.exhaust)
      with EXPERIMENT_READY r0 cs run have "s1 = s2" by (auto simp: start_and_wait_def)
      with reload_nodes_cases [OF r2] EXPERIMENT_READY show ?thesis by auto
    next
      case EXPERIMENT_FAILED
      obtain rt wt st' where t: "terminate env w0 s0 = (rt, wt, st')" by (metis prod_cases3)
      show ?thesis
      proof (cases rt)
        case (Inl e)
        with t EXPERIMENT_FAILED r0 cs run show ?thesis by (auto simp: start_and_wait_def)
      next
        case (Inr x)
        with t EXPERIMENT_FAILED r0 cs run have "start_then_wait env dec wt st' = (Inr st, w1, s1)"
          by (simp add: start_and_wait_def)
        from start_then_wait_not_null [OF nm this] show ?thesis .
      qed
    next
      case EXPERIMENT_NOT_STARTED
      with r0 cs run stw show ?thesis by (simp add: start_and_wait_def)
    next
      case EXPERIMENT_PROVISIONING
      with r0 cs run stw show ?thesis by (simp add: start_and_wait_def)
    next
      case EXPERIMENT_PROVISIONED
      with r0 cs run stw show ?thesis by (simp add: start_and_wait_def)
    next
      case EXPERIMENT_NULL
      with r0 cs run stw show ?thesis by (simp add: start_and_wait_def)
    next
      case EXPERIMENT_UNKNOWN
      with r0 cs run stw show ?thesis by (simp add: start_and_wait_def)
    qed
  qed
qed

subsection \<open>The requests of a run\<close>

lemma agree_here: "agree env env' w w1 \<Longrightarrow> prefix (w @ [Rpc c]) w1 \<Longrightarrow> env' w c = env w c"
  by (simp add: agree_def asked_def)

lemma agree_mono:
  "agree env env' w w1 \<Longrightarrow> prefix w wa \<Longrightarrow> prefix wb w1 \<Longrightarrow> agree env env' wa wb"
  unfolding agree_def asked_def by (meson prefix_order.trans)

lemma agree_heard: "agree env (heard env w w1) w w1"
  by (simp add: agree_def heard_def)

lemma agree_refl: "agree env env w w1"
  by (simp add: agree_def)

lemma get_status_world:
  assumes "get_status env dec w s = (r, w1, s1)"
  shows "prefix (w @ [Rpc (Get_experiment_status (project_name s) (experiment_name s))]) w1"
  using get_status_cases [OF assms]
proof (elim disjE conjE exE bexE)
  fix st s2
  assume "ready_new_status env dec
            (w @ [Rpc (Get_experiment_status (project_name s) (experiment_name s))]) s = (st, w1, s2)"
  from ready_new_status_shape [OF this] show ?thesis by auto
qed simp_all

lemma get_manifests_agree:
  assumes run: "get_manifests env dec w s = (r, w1, s1)" and ag: "agree env env' w w1"
  shows "prefix w w1 \<and> get_manifests env' dec w s = (r, w1, s1)"
proof -
  let ?c = "Get_experiment_manifests (project_name s) (experiment_name s)"
  from get_manifests_cases [OF run] have w1: "w1 = w @ [Rpc ?c]" by simp
  with ag have "env' w ?c = env w ?c" by (simp add: agree_here)
  then have "get_manifests env' dec w s = get_manifests env dec w s"
    by (simp add: get_manifests_def call_rpc_def)
  with run w1 show ?thesis by simp
qed

lemma ready_new_status_agree:
  assumes run: "ready_new_status env dec w s = (st, w1, s1)" and ag: "agree env env' w w1"
  shows "prefix w w1 \<and> ready_new_status env' dec w s = (st, w1, s1)"
proof (cases "status s \<noteq> EXPERIMENT_READY \<or> nodes s = []")
  case False
  with run show ?thesis by (auto simp: ready_new_status_def)
next
  case True
  obtain rm w2 s2 where gm: "get_manifests env dec w s = (rm, w2, s2)" by (metis prod_cases3)
  with True run have "w1 = w2"
    by (cases rm) (auto simp: ready_new_status_def Let_def split: if_splits)
  with get_manifests_agree [OF gm] ag
  have p: "prefix w w1" and "get_manifests env' dec w s = (rm, w2, s2)" by simp_all
  with gm have "get_manifests env' dec w s = get_manifests env dec w s" by simp
  then have "ready_new_status env' dec w s = ready_new_status env dec w s"
    by (simp add: ready_new_status_def)
  with run p show ?thesis by simp
qed

lemma get_status_ready_eq:
  assumes "env w (Get_experiment_status (project_name s) (experiment_name s)) =
             Rpc_returns RESPONSE_SUCCESS (Resp_Dict kvs)"
    and "startswith (strip (output_or kvs [])) ''Status: ready''"
  shows "get_status env dec w s =
           (case ready_new_status env dec
                   (w @ [Rpc (Get_experiment_status (project_name s) (experiment_name s))]) s of
              (st, w2, s2) \<Rightarrow> (Inr (), w2, update_status (status s) st s2))"
  using assms by (simp add: get_status_def call_rpc_def Let_def)

lemma get_status_agree:
  assumes run: "get_status env dec w s = (r, w1, s1)" and ag: "agree env env' w w1"
  shows "prefix w w1 \<and> get_status env' dec w s = (r, w1, s1)"
proof -
  let ?c = "Get_experiment_status (project_name s) (experiment_name s)"
  let ?w0 = "w @ [Rpc ?c]"
  from get_status_world [OF run] have p0: "prefix ?w0 w1" by auto
  then have p: "prefix w w1" by (meson append_prefixD)
  from ag p0 have e: "env' w ?c = env w ?c" by (rule agree_here)
  have "get_status env' dec w s = get_status env dec w s"
  proof (cases "env w ?c")
    case Rpc_raises
    with e show ?thesis by (simp add: get_status_def call_rpc_def)
  next
    case (Rpc_returns rval resp)
    show ?thesis
    proof (cases "\<exists>kvs. rval = RESPONSE_SUCCESS \<and> resp = Resp_Dict kvs \<and>
                        startswith (strip (output_or kvs [])) ''Status: ready''")
      case False
      with e Rpc_returns show ?thesis
        by (cases resp) (auto simp: get_status_def call_rpc_def Let_def)
    next
      case True
      then obtain kvs where ans: "env w ?c = Rpc_returns RESPONSE_SUCCESS (Resp_Dict kvs)"
        and rdy: "startswith (strip (output_or kvs [])) ''Status: ready''"
        using Rpc_returns by auto
      from ans e have ans': "env' w ?c = Rpc_returns RESPONSE_SUCCESS (Resp_Dict kvs)" by simp
      obtain st w2 s2 where rn: "ready_new_status env dec ?w0 s = (st, w2, s2)"
        by (metis prod_cases3)
      with get_status_ready_eq [where env=env and w=w and s=s and dec=dec, OF ans rdy] run
      have "w1 = w2" by simp
      with ag have "agree env env' ?w0 w2" by (auto intro: agree_mono)
      from ready_new_status_agree [OF rn this] rn
      have "ready_new_status env' dec ?w0 s = ready_new_status env dec ?w0 s" by simp
      with get_status_ready_eq [where env=env and w=w and s=s and dec=dec, OF ans rdy]
           get_status_ready_eq [where env=env' and w=w and s=s and dec=dec, OF ans' rdy]
      show ?thesis by simp
    qed
  qed
  with run p show ?thesis by simp
qed

lemma poll_loop_agree:
  "poll_loop env dec k w s = (r, w1, s1) \<Longrightarrow> agree env env' w w1 \<Longrightarrow>
     prefix w w1 \<and> poll_loop env' dec k w s = (r, w1, s1)"
proof (induction env dec k w s rule: poll_loop.induct)
  case (1 env dec poll_count w s)
  note run = "1.prems"(1) and ag = "1.prems"(2)
  show ?case
  proof (cases "status s \<in> set [EXPERIMENT_PROVISIONING, EXPERIMENT_PROVISIONED,
                                   EXPERIMENT_NOT_STARTED, EXPERIMENT_UNKNOWN]
                \<and> poll_count < poll_count_max s")
    case False
    with run have "r = Inr poll_count" "w1 = w" "s1 = s" by (simp_all del: set_simps)
    with False show ?thesis by (subst poll_loop.simps) (auto simp del: set_simps)
  next
    case True
    let ?ws = "w @ [Sleep POLL_INTERVAL_S]"
    obtain r2 w2 s2 where gs: "get_status env dec ?ws s = (r2, w2, s2)"
      by (metis prod_cases3)
    from get_status_world [OF gs] have p2: "prefix ?ws w2" by (rule append_prefixD)
    then have pw2: "prefix w w2" by (meson append_prefixD)
    show ?thesis
    proof (cases r2)
      case (Inl e)
      with True gs run have res: "r = Inl e" "w1 = w2" "s1 = s2" by (simp_all del: set_simps)
      with ag have "agree env env' ?ws w2" by (auto intro: agree_mono)
      from get_status_agree [OF gs this] have "get_status env' dec ?ws s = (r2, w2, s2)" by simp
      with True Inl res pw2 show ?thesis
        by (subst poll_loop.simps) (simp del: set_simps)
    next
      case (Inr u)
      with True gs run have rec: "poll_loop env dec (poll_count + 1) w2 s2 = (r, w1, s1)"
        by (simp del: set_simps)
      from ag pw2 have ag2: "agree env env' w2 w1" by (auto intro: agree_mono)
      from "1.IH" [OF True gs [symmetric] Inr refl rec ag2]
      have p21: "prefix w2 w1" and rec': "poll_loop env' dec (poll_count + 1) w2 s2 = (r, w1, s1)"
        by simp_all
      from ag p21 have "agree env env' ?ws w2" by (auto intro: agree_mono)
      from get_status_agree [OF gs this] have "get_status env' dec ?ws s = (r2, w2, s2)" by simp
      with True Inr rec' pw2 p21 show ?thesis
        by (subst poll_loop.simps) (auto simp del: set_simps)
    qed
  qed
qed

lemma reload_nodes_agree:
  assumes run: "reload_nodes env dec w s = (w1, s1)" and ag: "agree env env' w w1"
  shows "prefix w w1 \<and> reload_nodes env' dec w s = (w1, s1)"
proof (cases "nodes s = []")
  case False
  with run show ?thesis by (auto simp: reload_nodes_def)
next
  case True
  obtain rm w2 s2 where gm: "get_manifests env dec w s = (rm, w2, s2)" by (metis prod_cases3)
  with True run have "w1 = w2"
    by (cases rm) (auto simp: reload_nodes_def Let_def split: if_splits)
  with get_manifests_agree [OF gm] ag
  have p: "prefix w w1" and "get_manifests env' dec w s = (rm, w2, s2)" by simp_all
  with gm have "get_manifests env' dec w s = get_manifests env dec w s" by simp
  then have "reload_nodes env' dec w s = reload_nodes env dec w s"
    by (simp add: reload_nodes_def)
  with run p show ?thesis by simp
qed

lemma final_evaluation_agree:
  assumes run: "final_evaluation env dec w s = (r, w1, s1)" and ag: "agree env env' w w1"
  shows "prefix w w1 \<and> final_evaluation env' dec w s = (r, w1, s1)"
proof (cases "status s = EXPERIMENT_READY")
  case False
  with run show ?thesis by (auto simp: final_evaluation_def Let_def split: if_splits)
next
  case True
  obtain w2 s2 where rl: "reload_nodes env dec w s = (w2, s2)" by (metis prod.exhaust)
  with True run have "w1 = w2" by (auto simp: final_evaluation_def)
  with reload_nodes_agree [OF rl] ag
  have p: "prefix w w1" and "reload_nodes env' dec w s = (w2, s2)" by simp_all
  with rl have "reload_nodes env' dec w s = reload_nodes env dec w s" by simp
  then have "final_evaluation env' dec w s = final_evaluation env dec w s"
    by (simp add: final_evaluation_def)
  with run p show ?thesis by simp
qed

lemma wait_for_ready_agree:
  assumes run: "wait_for_ready env dec w s = (r, w1, s1)" and ag: "agree env env' w w1"
  shows "prefix w w1 \<and> wait_for_ready env' dec w s = (r, w1, s1)"
proof -
  obtain r2 w2 s2 where pl: "poll_loop env dec 0 w s = (r2, w2, s2)" by (metis prod_cases3)
  show ?thesis
  proof (cases r2)
    case (Inl e)
    with pl run have res: "r = Inl e" "w1 = w2" "s1 = s2" by (simp_all add: wait_for_ready_def)
    with poll_loop_agree [OF pl] ag
    have "prefix w w2" "poll_loop env' dec 0 w s = (r2, w2, s2)" by simp_all
    with Inl res show ?thesis by (simp add: wait_for_ready_def)
  next
    case (Inr m)
    with pl run have fe: "final_evaluation env dec w2 s2 = (r, w1, s1)"
      by (simp add: wait_for_ready_def)
    from final_evaluation_agree [OF fe agree_refl] have p21: "prefix w2 w1" by simp
    from ag p21 have "agree env env' w w2" by (auto intro: agree_mono)
    from poll_loop_agree [OF pl this]
    have pw2: "prefix w w2" and pl': "poll_loop env' dec 0 w s = (r2, w2, s2)" by simp_all
    from ag pw2 have "agree env env' w2 w1" by (auto intro: agree_mono)
    from final_evaluation_agree [OF fe this]
    have fe': "final_evaluation env' dec w2 s2 = (r, w1, s1)" by simp
    from pw2 p21 have "prefix w w1" by (rule prefix_order.trans)
    with pl' fe' Inr show ?thesis by (simp add: wait_for_ready_def)
  qed
qed


lemma terminate_agree:
  assumes run: "terminate env w s = (r, w1, s1)" and ag: "agree env env' w w1"
  shows "prefix w w1 \<and> terminate env' w s = (r, w1, s1)"
proof -
  let ?c = "Terminate_experiment (project_name s) (experiment_name s)"
  from terminate_cases [OF run] have w1: "w1 = w @ [Rpc ?c]" by auto
  with ag have "env' w ?c = env w ?c" by (simp add: agree_here)
  then have "terminate env' w s = terminate env w s"
    by (simp add: terminate_def call_rpc_def)
  with run w1 show ?thesis by simp
qed


lemma start_then_wait_agree:
  assumes run: "start_then_wait env dec w s = (r, w1, s1)" and ag: "agree env env' w w1"
  shows "prefix w w1 \<and> start_then_wait env' dec w s = (r, w1, s1)"
proof (cases "status s \<notin> set [EXPERIMENT_PROVISIONING, EXPERIMENT_PROVISIONED]")
  case False
  with run have "wait_for_ready env dec w s = (r, w1, s1)"
    by (simp add: start_then_wait_def del: set_simps)
  from wait_for_ready_agree [OF this ag] False show ?thesis
    by (simp add: start_then_wait_def del: set_simps)
next
  case True
  let ?c = "Start_experiment (experiment_name s) (project_name s) (profile_name s)"
  let ?w0 = "w @ [Rpc ?c]"
  have direct: ?thesis if w1: "w1 = ?w0" and
    same: "env' w ?c = env w ?c \<Longrightarrow> start_then_wait env' dec w s = start_then_wait env dec w s"
  proof -
    from ag w1 have "env' w ?c = env w ?c" by (simp add: agree_here)
    from same [OF this] run w1 show ?thesis by simp
  qed
  show ?thesis
  proof (cases "env w ?c")
    case Rpc_raises
    with True run have w1: "w1 = ?w0"
      by (auto simp: start_then_wait_def call_rpc_def simp del: set_simps)
    show ?thesis
    proof (rule direct [OF w1])
      assume "env' w ?c = env w ?c"
      with Rpc_raises True
      show "start_then_wait env' dec w s = start_then_wait env dec w s"
        by (simp add: start_then_wait_def call_rpc_def del: set_simps)
    qed
  next
    case (Rpc_returns rval resp)
    show ?thesis
    proof (cases "rval = RESPONSE_SUCCESS")
      case False
      with Rpc_returns True run have w1: "w1 = ?w0"
        by (auto simp: start_then_wait_def call_rpc_def Let_def simp del: set_simps)
      show ?thesis
      proof (rule direct [OF w1])
        assume "env' w ?c = env w ?c"
        with Rpc_returns True False
        show "start_then_wait env' dec w s = start_then_wait env dec w s"
          by (simp add: start_then_wait_def call_rpc_def del: set_simps)
      qed
    next
      case ok: True
      let ?ws = "?w0 @ [Sleep 5]"
      obtain r2 w2 s2 where gs: "get_status env dec ?ws s = (r2, w2, s2)"
        by (metis prod_cases3)
      from get_status_agree [OF gs agree_refl] have p2: "prefix ?ws w2" by simp
      have cont: "(\<exists>e. r2 = Inl e \<and> r = Inl e \<and> w1 = w2 \<and> s1 = s2) \<or>
                  (\<exists>u. r2 = Inr u \<and> status s2 = EXPERIMENT_FAILED \<and>
                       r = Inr (status s2) \<and> w1 = w2 \<and> s1 = s2) \<or>
                  (\<exists>u. r2 = Inr u \<and> status s2 \<noteq> EXPERIMENT_FAILED \<and>
                       wait_for_ready env dec w2 s2 = (r, w1, s1))"
        using gs ok Rpc_returns True run
        by (cases r2; cases "status s2 = EXPERIMENT_FAILED")
           (auto simp: start_then_wait_def call_rpc_def simp del: set_simps)
      have p21: "prefix w2 w1"
        using cont wait_for_ready_agree [where env=env and env'=env and dec=dec and w=w2 and s=s2
                                          and r=r and ?w1.0=w1 and ?s1.0=s1, OF _ agree_refl]
        by auto
      from p2 have p0: "prefix ?w0 w2" by (rule append_prefixD)
      from p0 p21 have p01: "prefix ?w0 w1" by (rule prefix_order.trans)
      then have pw: "prefix w w1" by (rule append_prefixD)
      from ag p01 have e: "env' w ?c = env w ?c" by (rule agree_here)
      from ag p21 have "agree env env' ?ws w2" by (auto intro: agree_mono)
      from get_status_agree [OF gs this] have gs': "get_status env' dec ?ws s = (r2, w2, s2)"
        by simp
      from ag p0 have ag2: "agree env env' w2 w1"
        by (auto intro: agree_mono dest: append_prefixD)
      have cont': "wait_for_ready env' dec w2 s2 = (r, w1, s1)"
        if "wait_for_ready env dec w2 s2 = (r, w1, s1)"
        using wait_for_ready_agree [OF that ag2] by simp
      from cont cont' gs' e ok Rpc_returns True
      have "start_then_wait env' dec w s = (r, w1, s1)"
        by (auto simp: start_then_wait_def call_rpc_def simp del: set_simps)
      with pw show ?thesis by simp
    qed
  qed
qed

lemma check_status_agree:
  assumes run: "check_status env dec w s = (r, w1, s1)" and ag: "agree env env' w w1"
  shows "prefix w w1 \<and> check_status env' dec w s = (r, w1, s1)"
proof -
  from check_status_cases [OF run] obtain r0 where gs: "get_status env dec w s = (r0, w1, s1)"
    by blast
  from get_status_agree [OF gs ag] gs
  have p: "prefix w w1" and "get_status env' dec w s = get_status env dec w s" by simp_all
  then have "check_status env' dec w s = check_status env dec w s"
    by (simp add: check_status_def)
  with run p show ?thesis by simp
qed

lemma start_and_wait_agree:
  assumes run: "start_and_wait env dec w s = (r, w1, s1)" and ag: "agree env env' w w1"
  shows "prefix w w1 \<and> start_and_wait env' dec w s = (r, w1, s1)"
proof -
  obtain r0 w0 s0 where cs: "check_status env dec w s = (r0, w0, s0)" by (metis prod_cases3)
  from check_status_agree [OF cs agree_refl] have pw0: "prefix w w0" by simp
  from check_status_cases [OF cs] obtain rg where
    gs: "get_status env dec w s = (rg, w0, s0)"
    and rg: "case rg of Inl e \<Rightarrow> r0 = Inl e | Inr u \<Rightarrow> r0 = Inr (status s0)" by blast
  have fin: ?thesis
    if p: "prefix w0 w1"
      and same: "check_status env' dec w s = (r0, w0, s0) \<Longrightarrow> agree env env' w0 w1 \<Longrightarrow>
                   start_and_wait env' dec w s = (r, w1, s1)"
  proof -
    from ag p have "agree env env' w w0" by (auto intro: agree_mono)
    from check_status_agree [OF cs this] have cs': "check_status env' dec w s = (r0, w0, s0)"
      by simp
    from ag pw0 have "agree env env' w0 w1" by (auto intro: agree_mono)
    from same [OF cs' this] pw0 p show ?thesis by (auto intro: prefix_order.trans)
  qed
  show ?thesis
  proof (cases rg)
    case (Inl e)
    with rg cs run have "r = Inl e" "w1 = w0" "s1 = s0" "r0 = Inl e"
      by (auto simp: start_and_wait_def)
    then show ?thesis by (intro fin) (auto simp: start_and_wait_def)
  next
    case (Inr u)
    with rg have r0: "r0 = Inr (status s0)" by simp
    show ?thesis
    proof (cases "status s0")
      case EXPERIMENT_READY
      obtain w2 s2 where rl: "reload_nodes env dec w0 s0 = (w2, s2)" by (metis prod.exhaust)
      with EXPERIMENT_READY r0 cs run have res: "r = Inr (status s2)" "w1 = w2" "s1 = s2"
        by (auto simp: start_and_wait_def)
      show ?thesis
      proof (rule fin)
        from reload_nodes_agree [OF rl agree_refl] res show "prefix w0 w1" by simp
        assume cs': "check_status env' dec w s = (r0, w0, s0)" and ag0: "agree env env' w0 w1"
        from reload_nodes_agree [OF rl] ag0 res
        have "reload_nodes env' dec w0 s0 = (w2, s2)" by simp
        with cs' r0 EXPERIMENT_READY res show "start_and_wait env' dec w s = (r, w1, s1)"
          by (simp add: start_and_wait_def)
      qed
    next
      case EXPERIMENT_FAILED
      obtain rt wt st where tm: "terminate env w0 s0 = (rt, wt, st)" by (metis prod_cases3)
      from terminate_agree [OF tm agree_refl] have p0t: "prefix w0 wt" by simp
      show ?thesis
      proof (cases rt)
        case (Inl e)
        with tm EXPERIMENT_FAILED r0 cs run have res: "r = Inl e" "w1 = wt" "s1 = st"
          by (auto simp: start_and_wait_def)
        show ?thesis
        proof (rule fin)
          from p0t res show "prefix w0 w1" by simp
          assume cs': "check_status env' dec w s = (r0, w0, s0)" and ag0: "agree env env' w0 w1"
          from terminate_agree [OF tm] ag0 res have "terminate env' w0 s0 = (rt, wt, st)" by simp
          with cs' r0 EXPERIMENT_FAILED res Inl show "start_and_wait env' dec w s = (r, w1, s1)"
            by (simp add: start_and_wait_def)
        qed
      next
        case (Inr t)
        with tm EXPERIMENT_FAILED r0 cs run have k: "start_then_wait env dec wt st = (r, w1, s1)"
          by (simp add: start_and_wait_def)
        from start_then_wait_agree [OF k agree_refl] have pt1: "prefix wt w1" by simp
        show ?thesis
        proof (rule fin)
          from p0t pt1 show "prefix w0 w1" by (rule prefix_order.trans)
          assume cs': "check_status env' dec w s = (r0, w0, s0)" and ag0: "agree env env' w0 w1"
          from ag0 pt1 have "agree env env' w0 wt" by (auto intro: agree_mono)
          from terminate_agree [OF tm this] have tm': "terminate env' w0 s0 = (rt, wt, st)" by simp
          from ag0 p0t have "agree env env' wt w1" by (auto intro: agree_mono)
          from start_then_wait_agree [OF k this]
          have "start_then_wait env' dec wt st = (r, w1, s1)" by simp
          with tm' cs' r0 EXPERIMENT_FAILED Inr show "start_and_wait env' dec w s = (r, w1, s1)"
            by (simp add: start_and_wait_def)
        qed
      qed
    next
      case EXPERIMENT_NOT_STARTED
      with r0 cs run have k: "start_then_wait env dec w0 s0 = (r, w1, s1)"
        by (simp add: start_and_wait_def)
      show ?thesis
      proof (rule fin)
        from start_then_wait_agree [OF k agree_refl] show "prefix w0 w1" by simp
        assume cs': "check_status env' dec w s = (r0, w0, s0)" and ag0: "agree env env' w0 w1"
        from start_then_wait_agree [OF k ag0] cs' r0 EXPERIMENT_NOT_STARTED
        show "start_and_wait env' dec w s = (r, w1, s1)" by (simp add: start_and_wait_def)
      qed
    next
      case EXPERIMENT_PROVISIONING
      with r0 cs run have k: "start_then_wait env dec w0 s0 = (r, w1, s1)"
        by (simp add: start_and_wait_def)
      show ?thesis
      proof (rule fin)
        from start_then_wait_agree [OF k agree_refl] show "prefix w0 w1" by simp
        assume cs': "check_status env' dec w s = (r0, w0, s0)" and ag0: "agree env env' w0 w1"
        from start_then_wait_agree [OF k ag0] cs' r0 EXPERIMENT_PROVISIONING
        show "start_and_wait env' dec w s = (r, w1, s1)" by (simp add: start_and_wait_def)
      qed
    next
      case EXPERIMENT_PROVISIONED
      with r0 cs run have k: "start_then_wait env dec w0 s0 = (r, w1, s1)"
        by (simp add: start_and_wait_def)
      show ?thesis
      proof (rule fin)
        from start_then_wait_agree [OF k agree_refl] show "prefix w0 w1" by simp
        assume cs': "check_status env' dec w s = (r0, w0, s0)" and ag0: "agree env env' w0 w1"
        from start_then_wait_agree [OF k ag0] cs' r0 EXPERIMENT_PROVISIONED
        show "start_and_wait env' dec w s = (r, w1, s1)" by (simp add: start_and_wait_def)
      qed
    next
      case EXPERIMENT_NULL
      with r0 cs run have k: "start_then_wait env dec w0 s0 = (r, w1, s1)"
        by (simp add: start_and_wait_def)
      show ?thesis
      proof (rule fin)
        from start_then_wait_agree [OF k agree_refl] show "prefix w0 w1" by simp
        assume cs': "check_status env' dec w s = (r0, w0, s0)" and ag0: "agree env env' w0 w1"
        from start_then_wait_agree [OF k ag0] cs' r0 EXPERIMENT_NULL
        show "start_and_wait env' dec w s = (r, w1, s1)" by (simp add: start_and_wait_def)
      qed
    next
      case EXPERIMENT_UNKNOWN
      with r0 cs run have k: "start_then_wait env dec w0 s0 = (r, w1, s1)"
        by (simp add: start_and_wait_def)
      show ?thesis
      proof (rule fin)
        from start_then_wait_agree [OF k agree_refl] show "prefix w0 w1" by simp
        assume cs': "check_status env' dec w s = (r0, w0, s0)" and ag0: "agree env env' w0 w1"
        from start_then_wait_agree [OF k ag0] cs' r0 EXPERIMENT_UNKNOWN
        show "start_and_wait env' dec w s = (r, w1, s1)" by (simp add: start_and_wait_def)
      qed
    qed
  qed
qed

lemma heard_yields_no_nodes: "fetched_none env dec w w1 \<Longrightarrow> yields_no_nodes (heard env w w1) dec"
  by (simp add: fetched_none_def yields_no_nodes_def heard_def fetched_nodes_def)

lemma heard_never_missing: "none_missing env w w1 \<Longrightarrow> never_missing (heard env w w1)"
  by (simp add: none_missing_def never_missing_def heard_def)

lemma yields_no_nodes_fetched_none: "yields_no_nodes env dec \<Longrightarrow> fetched_none env dec w w1"
  by (simp add: fetched_none_def yields_no_nodes_def)

lemma never_missing_none_missing: "never_missing env \<Longrightarrow> none_missing env w w1"
  by (auto simp: none_missing_def never_missing_def)

lemma start_and_wait_fetched_none:
  assumes z: "fetched_none env dec w w1" and e: "nodes s = []"
    and run: "start_and_wait env dec w s = (r, w1, s1)"
  shows "nodes s1 = []"
proof -
  from start_and_wait_agree [OF run agree_heard]
  have "start_and_wait (heard env w w1) dec w s = (r, w1, s1)" by simp
  from start_and_wait_keeps_empty [OF heard_yields_no_nodes [OF z] e this] show ?thesis .
qed

lemma start_and_wait_none_missing:
  assumes nm: "none_missing env w w1" and run: "start_and_wait env dec w s = (Inr st, w1, s1)"
  shows "status s1 \<noteq> EXPERIMENT_NULL"
proof -
  from start_and_wait_agree [OF run agree_heard]
  have "start_and_wait (heard env w w1) dec w s = (Inr st, w1, s1)" by simp
  from start_and_wait_not_null [OF heard_never_missing [OF nm] this] show ?thesis .
qed

lemma env_fetch_raises_fetched_none: "fetched_none env_fetch_raises dec w w1"
  by (simp add: fetched_none_def env_fetch_raises_def fetched_nodes_def)

lemma env_fetch_raises_none_missing: "none_missing env_fetch_raises w w1"
  by (auto simp: none_missing_def env_fetch_raises_def)

subsection \<open>The parser against its specification\<close>

lemma select_host_spec: "select_host v = spec_host v"
proof (cases v)
  case (PList hs)
  have "(case find (\<lambda>h. case h of PDict kvs \<Rightarrow> truthy (dict_get kvs ''@ipv4'') | _ \<Rightarrow> False) hs of
           Some (PDict kvs) \<Rightarrow> Some kvs | _ \<Rightarrow> None)
        = (case [kvs. PDict kvs \<leftarrow> hs, truthy (dict_get kvs ''@ipv4'')] of
             [] \<Rightarrow> None | kvs # rest \<Rightarrow> Some kvs)"
  proof (induction hs)
    case Nil
    show ?case by simp
  next
    case (Cons h hs)
    then show ?case by (cases h) auto
  qed
  with PList show ?thesis by (simp add: select_host_def spec_host_def)
qed (simp_all add: select_host_def spec_host_def)

lemma parse_node_entry_spec:
  assumes "string_id e"
  shows "parse_node_entry e reg =
           Inr (case spec_node e of None \<Rightarrow> reg | Some n \<Rightarrow> store reg n)"
proof (cases e)
  case (PDict kvs)
  show ?thesis
  proof (cases "spec_host (dict_get kvs ''host'')")
    case None
    with PDict show ?thesis
      by (auto simp: parse_node_entry_def spec_node_def Let_def select_host_spec
               split: option.splits pyval.splits)
  next
    case (Some h)
    with PDict assms show ?thesis
      by (cases "map_of kvs ''@client_id''"; cases "dict_get kvs ''@client_id''")
         (auto simp: parse_node_entry_def spec_node_def Let_def select_host_spec string_id_def
                     dict_get_def store_def)
  qed
qed (simp_all add: parse_node_entry_def spec_node_def)

lemma parse_node_entries_spec:
  "list_all string_id es \<Longrightarrow>
     parse_node_entries es reg = (None, foldl store reg (List.map_filter spec_node es))"
proof (induction es arbitrary: reg)
  case Nil
  show ?case by (simp add: List.map_filter_simps)
next
  case (Cons e es)
  then show ?case
    by (cases "spec_node e") (simp_all add: parse_node_entry_spec List.map_filter_simps)
qed

lemma parse_manifest_spec:
  assumes "list_all string_id (spec_entries m)"
  shows "parse_manifest m reg = foldl store reg (List.map_filter spec_node (spec_entries m))"
proof (cases m)
  case (PDict kvs)
  show ?thesis
  proof (cases "map_of kvs ''rspec''")
    case None
    with PDict show ?thesis
      by (simp add: parse_manifest_def spec_entries_def dict_get_def List.map_filter_simps)
  next
    case (Some rs)
    show ?thesis
    proof (cases rs)
      case (PDict rkvs)
      note rk = this
      show ?thesis
      proof (cases "map_of rkvs ''node''")
        case None
        with rk Some \<open>m = PDict kvs\<close> show ?thesis
          by (simp add: parse_manifest_def spec_entries_def dict_get_def List.map_filter_simps Let_def)
      next
        case nd: (Some v)
        have se: "spec_entries m = (case v of PNone \<Rightarrow> [] | PList xs \<Rightarrow> xs | _ \<Rightarrow> [v])"
          using nd rk Some \<open>m = PDict kvs\<close> by (simp add: spec_entries_def split: pyval.split)
        from nd rk Some \<open>m = PDict kvs\<close> assms se show ?thesis
          by (cases v)
             (auto simp: parse_manifest_def dict_get_def Let_def parse_node_entries_spec
                         List.map_filter_simps parse_node_entry_spec spec_node_def
                   split: option.splits)
      qed
    qed (use Some \<open>m = PDict kvs\<close> in
          \<open>simp_all add: parse_manifest_def spec_entries_def dict_get_def List.map_filter_simps Let_def\<close>)
  qed
qed (simp_all add: parse_manifest_def spec_entries_def List.map_filter_simps)

lemma parse_all_spec:
  "string_ids ms \<Longrightarrow>
     foldl (\<lambda>reg m. parse_manifest m reg) reg ms = foldl store reg (spec_nodes ms)"
proof (induction ms arbitrary: reg)
  case Nil
  show ?case by (simp add: spec_nodes_def)
next
  case (Cons m ms)
  then show ?case
    by (simp add: string_ids_def spec_nodes_def parse_manifest_spec)
qed

lemma store_keys: "fst ` set (foldl store reg ns) = fst ` set reg \<union> client_id ` set ns"
proof (induction ns arbitrary: reg)
  case Nil
  show ?case by simp
next
  case (Cons n ns)
  have "fst ` set (store reg n) = insert (client_id n) (fst ` set reg)"
    by (simp add: store_def dom_update)
  with Cons.IH [of "store reg n"] show ?case by auto
qed

subsection \<open>Rounds of the connection loop\<close>

lemma ssh_command_ssh [simp]: "ssh_command (s\<lparr>ssh := h\<rparr>) = ssh_command s"
  by (simp add: ssh_command_def)

lemma attempt_transient:
  assumes "spawns env w"
    and "expects env (w @ [Spawn (ssh_command s)]) = Matched 5 \<or>
         expects env (w @ [Spawn (ssh_command s)]) = Matched 6"
  shows "attempt env w s =
           (Retry, w @ [Spawn (ssh_command s), Expect 7 25, Close_force], s\<lparr>ssh := Some (Child True)\<rparr>)"
  using assms by (auto simp: attempt_def expect_def close_if_open_def close_force_def Let_def)

lemma attempt_prompt:
  assumes "spawns env w" and "expects env (w @ [Spawn (ssh_command s)]) = Matched 0"
  shows "attempt env w s =
           (Returned, w @ [Spawn (ssh_command s), Expect 7 25], s\<lparr>ssh := Some (Child False)\<rparr>)"
  using assms by (simp add: attempt_def expect_def Let_def)

lemma attempt_password:
  assumes "spawns env w" and "expects env (w @ [Spawn (ssh_command s)]) = Matched 1"
  shows "attempt env w s =
           (Raised (ValueError ''SSH requested user password, unexpected for key authentication.''),
            w @ [Spawn (ssh_command s), Expect 7 25, Close_force], s\<lparr>ssh := Some (Child True)\<rparr>)"
  using assms by (simp add: attempt_def expect_def close_force_def Let_def)

lemma attempt_denied:
  assumes "spawns env w" and "expects env (w @ [Spawn (ssh_command s)]) = Matched 3"
  shows "attempt env w s =
           (Raised (ConnectionRefusedError ''SSH Permission Denied (publickey)''),
            w @ [Spawn (ssh_command s), Expect 7 25, Close_force], s\<lparr>ssh := Some (Child True)\<rparr>)"
  using assms by (simp add: attempt_def expect_def close_force_def Let_def)

lemma attempt_host_key_password:
  assumes "spawns env w" and "expects env (w @ [Spawn (ssh_command s)]) = Matched 4"
    and "expects env (w @ [Spawn (ssh_command s), Expect 7 25, Sendline ''yes'']) = Matched 1"
  shows "attempt env w s =
           (Raised (ValueError ''SSH requested user password after host key confirmation.''),
            w @ [Spawn (ssh_command s), Expect 7 25, Sendline ''yes'', Expect 7 15],
            s\<lparr>ssh := Some (Child False)\<rparr>)"
  using assms by (simp add: attempt_def after_host_key_def expect_def Let_def)

lemma attempt_host_key_denied:
  assumes "spawns env w" and "expects env (w @ [Spawn (ssh_command s)]) = Matched 4"
    and "expects env (w @ [Spawn (ssh_command s), Expect 7 25, Sendline ''yes'']) = Matched 3"
  shows "attempt env w s =
           (Raised (ConnectionRefusedError ''Permission denied after host key confirmation.''),
            w @ [Spawn (ssh_command s), Expect 7 25, Sendline ''yes'', Expect 7 15],
            s\<lparr>ssh := Some (Child False)\<rparr>)"
  using assms by (simp add: attempt_def after_host_key_def expect_def Let_def)

lemma open_loop_exhausted:
  "\<not> retry_count < max_retries \<Longrightarrow>
     open_loop env retry_count w s =
       (Inl (ConnectionError (''Could not connect via SSH to '' @ host_address s
                                @ '' after multiple retries'')), w, s)"
  by simp

lemma open_loop_retry:
  assumes "retry_count < max_retries" and "attempt env w s = (Retry, w1, s1)"
  shows "open_loop env retry_count w s =
           open_loop env (retry_count + 1)
             (w1 @ (if retry_count + 1 < max_retries then [Backoff (2 ^ (retry_count + 1))] else [])) s1"
  using assms by (subst open_loop.simps) simp

lemma open_loop_returned:
  assumes "retry_count < max_retries" and "attempt env w s = (Returned, w1, s1)"
  shows "open_loop env retry_count w s = (Inr (), w1, s1)"
  using assms by (subst open_loop.simps) simp

lemma open_loop_raised:
  assumes "retry_count < max_retries" and "attempt env w s = (Raised e, w1, s1)"
  shows "open_loop env retry_count w s = (Inl e, w1, s1)"
  using assms by (subst open_loop.simps) simp

lemma open_loop_transient:
  "retry_count + k \<le> max_retries \<Longrightarrow> transient_rounds env (ssh_command s) retry_count w k \<Longrightarrow>
     open_loop env retry_count w s =
       open_loop env (retry_count + k) (w @ failed_rounds (ssh_command s) retry_count k)
         (if k = 0 then s else s\<lparr>ssh := Some (Child True)\<rparr>)"
proof (induction k arbitrary: retry_count w s)
  case 0
  show ?case by simp
next
  case (Suc k)
  let ?cmd = "ssh_command s"
  let ?s1 = "s\<lparr>ssh := Some (Child True)\<rparr>"
  let ?w1 = "w @ failed_rounds ?cmd retry_count 1"
  from Suc.prems have lt: "retry_count < max_retries" by simp
  from Suc.prems have sp: "spawns env w"
    and tr: "expects env (w @ [Spawn ?cmd]) = Matched 5 \<or> expects env (w @ [Spawn ?cmd]) = Matched 6"
    and rest: "transient_rounds env ?cmd (retry_count + 1) ?w1 k" by simp_all
  have step: "open_loop env retry_count w s = open_loop env (retry_count + 1) ?w1 ?s1"
    using open_loop_retry [OF lt attempt_transient [OF sp tr]] by simp
  from rest have rest': "transient_rounds env (ssh_command ?s1) (retry_count + 1) ?w1 k" by simp
  from Suc.prems have le: "retry_count + 1 + k \<le> max_retries" by simp
  from Suc.IH [OF le rest'] step show ?case by (cases k) simp_all
qed

lemma attempts_append [simp]: "attempts (w @ v) = attempts w + attempts v"
  by (simp add: attempts_def)

lemma attempts_simps [simp]:
  "attempts [] = 0"
  "attempts (Spawn c # w) = Suc (attempts w)"
  "attempts (Expect n t # w) = attempts w"
  "attempts (Sendline x # w) = attempts w"
  "attempts (Close_force # w) = attempts w"
  "attempts (Backoff n # w) = attempts w"
  by (simp_all add: attempts_def)

lemma attempts_failed_rounds [simp]: "attempts (failed_rounds cmd retry_count k) = k"
  by (induction k arbitrary: retry_count) simp_all

subsection \<open>The loop at any round\<close>

lemma close_if_open_keeps:
  "close_if_open w s = (w1, s1) \<Longrightarrow> s1\<lparr>ssh := None\<rparr> = s\<lparr>ssh := None\<rparr>"
  by (auto simp: close_if_open_def close_force_def split: option.splits child.splits bool.splits)

lemma passphrase_step_keeps:
  assumes "passphrase_step env cf m1 m2 w s = (r, w1, s1)"
  shows "s1\<lparr>ssh := None\<rparr> = s\<lparr>ssh := None\<rparr>"
proof -
  have ci: "snd (close_if_open w0 s)\<lparr>ssh := None\<rparr> = s\<lparr>ssh := None\<rparr>" for w0
    using close_if_open_keeps [of w0 s "fst (close_if_open w0 s)" "snd (close_if_open w0 s)"]
    by simp
  show ?thesis
  proof (cases "\<exists>pw. password s = Some pw \<and> pw \<noteq> []")
    case False
    with assms show ?thesis
      by (cases "password s") (auto simp: passphrase_step_def close_force_def split: if_splits)
  next
    case True
    then obtain pw where pw: "password s = Some pw" "pw \<noteq> []" by blast
    show ?thesis
    proof (cases "expects env (w @ [Sendline pw])")
      case Expect_raises
      with pw assms ci [of "w @ [Sendline pw, Expect 2 15]"] show ?thesis
        by (auto simp: passphrase_step_def expect_def split: prod.splits)
    next
      case (Matched j)
      with pw assms show ?thesis
        by (auto simp: passphrase_step_def expect_def close_force_def split: if_splits)
    qed
  qed
qed

lemma after_host_key_keeps:
  assumes "after_host_key env w s = (r, w1, s1)"
  shows "s1\<lparr>ssh := None\<rparr> = s\<lparr>ssh := None\<rparr>"
proof -
  have ci: "snd (close_if_open w0 s)\<lparr>ssh := None\<rparr> = s\<lparr>ssh := None\<rparr>" for w0
    using close_if_open_keeps [of w0 s "fst (close_if_open w0 s)" "snd (close_if_open w0 s)"]
    by simp
  show ?thesis
  proof (cases "expects env (w @ [Sendline ''yes''])")
    case Expect_raises
    with assms ci [of "w @ [Sendline ''yes'', Expect 7 15]"] show ?thesis
      by (auto simp: after_host_key_def expect_def split: prod.splits)
  next
    case (Matched k)
    show ?thesis
    proof (cases "k = 2")
      case True
      with Matched assms have "passphrase_step env False
                  ''Passphrase authentication failed after host key confirmation.''
                  ''Encrypted key requires KEYPWORD after host key confirmation.''
                  (w @ [Sendline ''yes'', Expect 7 15]) s = (r, w1, s1)"
        by (simp add: after_host_key_def expect_def)
      then show ?thesis by (rule passphrase_step_keeps)
    next
      case False
      with Matched assms ci [of "w @ [Sendline ''yes'', Expect 7 15]"] show ?thesis
        by (auto simp: after_host_key_def expect_def split: prod.splits if_splits)
    qed
  qed
qed

lemma attempt_keeps:
  assumes "attempt env w s = (r, w1, s1)"
  shows "s1\<lparr>ssh := None\<rparr> = s\<lparr>ssh := None\<rparr>"
proof (cases "spawns env w")
  case False
  with assms have "close_if_open (w @ [Spawn (ssh_command s)]) s = (w1, s1)"
    by (auto simp: attempt_def split: prod.splits)
  then show ?thesis by (rule close_if_open_keeps)
next
  case True
  let ?s0 = "s\<lparr>ssh := Some (Child False)\<rparr>"
  let ?w0 = "w @ [Spawn (ssh_command s), Expect 7 25]"
  have ci: "snd (close_if_open w0 ?s0)\<lparr>ssh := None\<rparr> = s\<lparr>ssh := None\<rparr>" for w0
    using close_if_open_keeps [of w0 ?s0 "fst (close_if_open w0 ?s0)" "snd (close_if_open w0 ?s0)"]
    by simp
  show ?thesis
  proof (cases "expects env (w @ [Spawn (ssh_command s)])")
    case Expect_raises
    with True assms ci [of ?w0] show ?thesis
      by (auto simp: attempt_def expect_def Let_def split: prod.splits)
  next
    case (Matched i)
    show ?thesis
    proof (cases "i = 2 \<or> i = 4")
      case False
      with Matched True assms ci [of ?w0] show ?thesis
        by (auto simp: attempt_def expect_def Let_def close_force_def split: prod.splits if_splits)
    next
      case c: True
      then show ?thesis
      proof
        assume "i = 2"
        with Matched True assms have "passphrase_step env True
                         ''Incorrect SSH key passphrase or other permission issue.''
                         ''Encrypted SSH key requires KEYPWORD environment variable.''
                         ?w0 ?s0 = (r, w1, s1)"
          by (simp add: attempt_def expect_def Let_def)
        from passphrase_step_keeps [OF this] show ?thesis by simp
      next
        assume "i = 4"
        with Matched True assms
        have "after_host_key env ?w0 ?s0 = (r, w1, s1)"
          by (simp add: attempt_def expect_def Let_def)
        from after_host_key_keeps [OF this] show ?thesis by simp
      qed
    qed
  qed
qed

lemma loop_state_step:
  assumes "loop_state env w s (Suc retry_count) = Some (w2, s2)"
  shows "\<exists>w1 s1 w' . loop_state env w s retry_count = Some (w1, s1) \<and> retry_count < max_retries \<and>
           attempt env w1 s1 = (Retry, w', s2) \<and>
           w2 = w' @ (if retry_count + 1 < max_retries then [Backoff (2 ^ (retry_count + 1))] else [])"
  using assms
  by (auto split: option.splits prod.splits if_splits round_result.splits)

lemma loop_state_keeps:
  "loop_state env w s retry_count = Some (w1, s1) \<Longrightarrow> s1\<lparr>ssh := None\<rparr> = s\<lparr>ssh := None\<rparr>"
proof (induction retry_count arbitrary: w1 s1)
  case 0
  then show ?case by simp
next
  case (Suc retry_count)
  from loop_state_step [OF Suc.prems] obtain w0 s0 w' where
    ls: "loop_state env w s retry_count = Some (w0, s0)"
    and at: "attempt env w0 s0 = (Retry, w', s1)" by blast
  from Suc.IH [OF ls] attempt_keeps [OF at] show ?case by simp
qed

lemma kept_update:
  assumes "s1\<lparr>ssh := None\<rparr> = s\<lparr>ssh := None\<rparr>"
  shows "s1\<lparr>ssh := x\<rparr> = s\<lparr>ssh := x\<rparr>" and "ssh_command s1 = ssh_command s"
    and "password s1 = password s"
proof -
  from assms have "(s1\<lparr>ssh := None\<rparr>)\<lparr>ssh := x\<rparr> = (s\<lparr>ssh := None\<rparr>)\<lparr>ssh := x\<rparr>" by simp
  then show "s1\<lparr>ssh := x\<rparr> = s\<lparr>ssh := x\<rparr>" by simp
  from assms have "ssh_command (s1\<lparr>ssh := None\<rparr>) = ssh_command (s\<lparr>ssh := None\<rparr>)" by simp
  then show "ssh_command s1 = ssh_command s" by simp
  from assms have "password (s1\<lparr>ssh := None\<rparr>) = password (s\<lparr>ssh := None\<rparr>)" by simp
  then show "password s1 = password s" by simp
qed

lemma loop_state_open_loop:
  "loop_state env w s retry_count = Some (w1, s1) \<Longrightarrow>
     open_loop env 0 w s = open_loop env retry_count w1 s1"
proof (induction retry_count arbitrary: w1 s1)
  case 0
  then show ?case by simp
next
  case (Suc retry_count)
  from loop_state_step [OF Suc.prems] obtain w0 s0 w' where
    ls: "loop_state env w s retry_count = Some (w0, s0)"
    and lt: "retry_count < max_retries"
    and at: "attempt env w0 s0 = (Retry, w', s1)"
    and w1: "w1 = w' @ (if retry_count + 1 < max_retries then [Backoff (2 ^ (retry_count + 1))] else [])"
    by blast
  from Suc.IH [OF ls] open_loop_retry [OF lt at] w1 show ?case by simp
qed

lemma attempt_passphrase_unanswered:
  assumes "spawns env w" and "expects env (w @ [Spawn (ssh_command s)]) = Matched 2"
    and "password s = Some pw" and "pw \<noteq> []"
    and "expects env (w @ [Spawn (ssh_command s), Expect 7 25, Sendline pw]) = Expect_raises"
  shows "attempt env w s =
           (Retry, w @ [Spawn (ssh_command s), Expect 7 25, Sendline pw, Expect 2 15, Close_force],
            s\<lparr>ssh := Some (Child True)\<rparr>)"
  using assms
  by (simp add: attempt_def passphrase_step_def expect_def close_if_open_def close_force_def Let_def)

lemma attempt_host_key_passphrase_unanswered:
  assumes "spawns env w" and "expects env (w @ [Spawn (ssh_command s)]) = Matched 4"
    and "expects env (w @ [Spawn (ssh_command s), Expect 7 25, Sendline ''yes'']) = Matched 2"
    and "password s = Some pw" and "pw \<noteq> []"
    and "expects env (w @ [Spawn (ssh_command s), Expect 7 25, Sendline ''yes'', Expect 7 15,
                           Sendline pw]) = Expect_raises"
  shows "attempt env w s =
           (Retry, w @ [Spawn (ssh_command s), Expect 7 25, Sendline ''yes'', Expect 7 15,
                        Sendline pw, Expect 2 15, Close_force],
            s\<lparr>ssh := Some (Child True)\<rparr>)"
  using assms
  by (simp add: attempt_def after_host_key_def passphrase_step_def expect_def close_if_open_def
                close_force_def Let_def)

lemma failed_rounds_snoc:
  "failed_rounds cmd retry_count (Suc k) =
     failed_rounds cmd retry_count k @ [Spawn cmd, Expect 7 25, Close_force]
       @ (if retry_count + k + 1 < max_retries then [Backoff (2 ^ (retry_count + k + 1))] else [])"
proof (induction k arbitrary: retry_count)
  case 0
  show ?case by simp
next
  case (Suc k)
  have "failed_rounds cmd retry_count (Suc (Suc k)) =
          [Spawn cmd, Expect 7 25, Close_force]
          @ (if retry_count + 1 < max_retries then [Backoff (2 ^ (retry_count + 1))] else [])
          @ failed_rounds cmd (retry_count + 1) (Suc k)"
    by (rule failed_rounds.simps)
  also note Suc.IH [of "retry_count + 1"]
  finally show ?case by simp
qed

lemma transient_rounds_snoc:
  "transient_rounds env cmd retry_count w (Suc k) =
     (transient_rounds env cmd retry_count w k \<and>
      spawns env (w @ failed_rounds cmd retry_count k) \<and>
      (expects env (w @ failed_rounds cmd retry_count k @ [Spawn cmd]) = Matched 5 \<or>
       expects env (w @ failed_rounds cmd retry_count k @ [Spawn cmd]) = Matched 6))"
proof (induction k arbitrary: retry_count w)
  case 0
  show ?case by simp
next
  case (Suc k)
  have "transient_rounds env cmd retry_count w (Suc (Suc k)) =
          (spawns env w \<and>
           (expects env (w @ [Spawn cmd]) = Matched 5 \<or> expects env (w @ [Spawn cmd]) = Matched 6) \<and>
           transient_rounds env cmd (retry_count + 1) (w @ failed_rounds cmd retry_count 1) (Suc k))"
    by (rule transient_rounds.simps)
  also note Suc.IH [of "retry_count + 1" "w @ failed_rounds cmd retry_count 1"]
  finally show ?case by (auto simp del: transient_rounds.simps(2) simp add: transient_rounds.simps(2) [of env cmd retry_count w k])
qed

lemma transient_loop_state:
  "j \<le> max_retries \<Longrightarrow> transient_rounds env (ssh_command s) 0 w j \<Longrightarrow>
     loop_state env w s j =
       Some (w @ failed_rounds (ssh_command s) 0 j, if j = 0 then s else s\<lparr>ssh := Some (Child True)\<rparr>)"
proof (induction j)
  case 0
  show ?case by simp
next
  case (Suc j)
  let ?cmd = "ssh_command s"
  let ?s1 = "if j = 0 then s else s\<lparr>ssh := Some (Child True)\<rparr>"
  let ?w1 = "w @ failed_rounds ?cmd 0 j"
  from Suc.prems(2) have tr: "transient_rounds env ?cmd 0 w j"
    and sp: "spawns env ?w1"
    and ex: "expects env (?w1 @ [Spawn ?cmd]) = Matched 5 \<or> expects env (?w1 @ [Spawn ?cmd]) = Matched 6"
    unfolding transient_rounds_snoc by simp_all
  from Suc.prems(1) have lt: "j < max_retries" and le: "j \<le> max_retries" by simp_all
  from Suc.IH [OF le tr] have ls: "loop_state env w s j = Some (?w1, ?s1)" .
  have c: "ssh_command ?s1 = ?cmd" by simp
  from ex have ex': "expects env (?w1 @ [Spawn (ssh_command ?s1)]) = Matched 5 \<or>
                    expects env (?w1 @ [Spawn (ssh_command ?s1)]) = Matched 6"
    unfolding c .
  have at: "attempt env ?w1 ?s1 =
              (Retry, ?w1 @ [Spawn ?cmd, Expect 7 25, Close_force], s\<lparr>ssh := Some (Child True)\<rparr>)"
    using attempt_transient [OF sp ex'] by simp
  have "loop_state env w s (Suc j) =
          Some (if j + 1 < max_retries
                then (?w1 @ [Spawn ?cmd, Expect 7 25, Close_force]) @ [Backoff (2 ^ (j + 1))]
                else ?w1 @ [Spawn ?cmd, Expect 7 25, Close_force], s\<lparr>ssh := Some (Child True)\<rparr>)"
    using ls lt at by (simp del: failed_rounds.simps)
  also have "(if j + 1 < max_retries
                then (?w1 @ [Spawn ?cmd, Expect 7 25, Close_force]) @ [Backoff (2 ^ (j + 1))]
                else ?w1 @ [Spawn ?cmd, Expect 7 25, Close_force]) =
             w @ failed_rounds ?cmd 0 (Suc j)"
    unfolding failed_rounds_snoc by simp
  finally show ?case by simp
qed

section \<open>The claims\<close>

subsection \<open>Termination of the experiment\<close>

text \<open>
  C6. \<open>terminate\<close> issues exactly one terminate request. When the control plane
  answers with the success code, the state becomes Null, the registry is emptied and
  the cached manifests are dropped, and Null is returned; with any other code the
  controller is left exactly as it was and its prior status is returned.
\<close>

theorem terminate_effect:
  "env w (Terminate_experiment (project_name s) (experiment_name s)) = Rpc_returns rval resp \<Longrightarrow>
     terminate env w s =
       (if rval = RESPONSE_SUCCESS
        then (Inr EXPERIMENT_NULL, w @ [Rpc (Terminate_experiment (project_name s) (experiment_name s))],
              s\<lparr>status := EXPERIMENT_NULL, nodes := [], manifests := None\<rparr>)
        else (Inr (status s), w @ [Rpc (Terminate_experiment (project_name s) (experiment_name s))], s))"
  by (simp add: terminate_def call_rpc_def)

theorem terminate_effect_witness:
  "terminate (\<lambda>w c. Rpc_returns RESPONSE_SUCCESS (Resp_Dict [])) [] ex_ready =
     (Inr EXPERIMENT_NULL, [Rpc (Terminate_experiment ''proj'' ''exp'')],
      ex_ready\<lparr>status := EXPERIMENT_NULL, nodes := [], manifests := None\<rparr>)
   \<and> terminate (\<lambda>w c. Rpc_returns RESPONSE_ERROR Resp_None) [] ex_ready =
     (Inr EXPERIMENT_READY, [Rpc (Terminate_experiment ''proj'' ''exp'')], ex_ready)"
  using terminate_effect [of "\<lambda>w c. Rpc_returns RESPONSE_SUCCESS (Resp_Dict [])" "[]" ex_ready
          RESPONSE_SUCCESS "Resp_Dict []"]
        terminate_effect [of "\<lambda>w c. Rpc_returns RESPONSE_ERROR Resp_None" "[]" ex_ready
          RESPONSE_ERROR Resp_None]
  by (simp add: ex_ready_def ex_fresh_def)

subsection \<open>Bounded waiting\<close>

text \<open>
  C1. \<open>start_and_wait\<close> is a total function: it returns for every environment. A
  controller built with the fixed timeout of 1800 s and interval of 20 s sleeps at most
  90 poll intervals, after at most one pause of 5 s, whatever the control plane answers.
  A returned state is the controller's state and is Ready, Failed or Null. When the poll
  loop ends in a state that is still Provisioning, Provisioned, NotStarted or Unknown,
  it has run all its rounds and the wait returns Failed; a loop that ends in Null
  returns Null.
\<close>

theorem start_and_wait_bounded:
  assumes pcm: "poll_count_max s = PROVISION_TIMEOUT_S div POLL_INTERVAL_S"
    and run: "start_and_wait env dec w s = (r, w1, s1)"
  shows "(\<exists>n pause. n \<le> 90 \<and> (pause = [] \<or> pause = [5]) \<and>
            sleeps w1 = sleeps w @ pause @ replicate n 20) \<and>
         (\<forall>st. r = Inr st \<longrightarrow>
            st = status s1 \<and> st \<in> {EXPERIMENT_READY, EXPERIMENT_FAILED, EXPERIMENT_NULL}) \<and>
         (\<forall>w0 s0 k w2 s2. poll_loop env dec 0 w0 s0 = (Inr k, w2, s2) \<longrightarrow>
            k \<le> poll_count_max s0 \<and>
            (status s2 \<in> {EXPERIMENT_PROVISIONING, EXPERIMENT_PROVISIONED,
                           EXPERIMENT_NOT_STARTED, EXPERIMENT_UNKNOWN} \<longrightarrow>
               k = poll_count_max s0 \<and>
               wait_for_ready env dec w0 s0 =
                 (Inr EXPERIMENT_FAILED, w2, s2\<lparr>status := EXPERIMENT_FAILED\<rparr>)) \<and>
            (status s2 = EXPERIMENT_NULL \<longrightarrow>
               wait_for_ready env dec w0 s0 = (Inr EXPERIMENT_NULL, w2, s2)))"
proof (intro conjI allI impI)
  from start_and_wait_cases [OF run] pcm
  show "\<exists>n pause. n \<le> 90 \<and> (pause = [] \<or> pause = [5]) \<and>
            sleeps w1 = sleeps w @ pause @ replicate n 20"
    by (simp add: waited_def PROVISION_TIMEOUT_S_def POLL_INTERVAL_S_def)
next
  fix st assume "r = Inr st"
  with start_and_wait_cases [OF run] have "settled st s1" by simp
  then show "st = status s1" "st \<in> {EXPERIMENT_READY, EXPERIMENT_FAILED, EXPERIMENT_NULL}"
    by (auto simp: settled_def)
next
  fix w0 s0 k w2 s2
  assume pl: "poll_loop env dec 0 w0 s0 = (Inr k, w2, s2)"
  from poll_loop_exhausted [OF pl] show "k \<le> poll_count_max s0" by simp
  { assume "status s2 \<in> {EXPERIMENT_PROVISIONING, EXPERIMENT_PROVISIONED,
                           EXPERIMENT_NOT_STARTED, EXPERIMENT_UNKNOWN}"
    with poll_loop_exhausted [OF pl]
    show "k = poll_count_max s0"
      "wait_for_ready env dec w0 s0 = (Inr EXPERIMENT_FAILED, w2, s2\<lparr>status := EXPERIMENT_FAILED\<rparr>)"
      by auto }
  { assume "status s2 = EXPERIMENT_NULL"
    with poll_loop_exhausted [OF pl]
    show "wait_for_ready env dec w0 s0 = (Inr EXPERIMENT_NULL, w2, s2)" by simp }
qed

theorem start_and_wait_bounded_witness:
  "poll_count_max ex_fresh = PROVISION_TIMEOUT_S div POLL_INTERVAL_S \<and>
   fst (start_and_wait env_provisioning dec_none [] ex_fresh) = Inr EXPERIMENT_FAILED \<and>
   sleeps (fst (snd (start_and_wait env_provisioning dec_none [] ex_fresh))) = replicate 90 20 \<and>
   status (snd (snd (start_and_wait env_provisioning dec_none [] ex_fresh))) = EXPERIMENT_FAILED"
proof -
  let ?X = "start_and_wait env_provisioning dec_none [] ex_fresh"
  have h1: "poll_count_max ex_fresh = PROVISION_TIMEOUT_S div POLL_INTERVAL_S"
    by (simp add: ex_fresh_def PROVISION_TIMEOUT_S_def POLL_INTERVAL_S_def)
  have h2: "?X = (fst ?X, fst (snd ?X), snd (snd ?X))" by simp
  have e1: "fst ?X = Inr EXPERIMENT_FAILED" by code_simp
  have e2: "sleeps (fst (snd ?X)) = replicate 90 20" by code_simp
  from start_and_wait_bounded [OF h1 h2] e1
  have "status (snd (snd ?X)) = EXPERIMENT_FAILED" by auto
  with h1 e1 e2 show ?thesis by simp
qed

subsection \<open>The registry and the lifecycle state\<close>

text \<open>
  C7, as stated, fails: the registry can be non-empty in a state that is not Ready. A
  fresh controller that sees \<open>Status: ready\<close> with one valid node and then
  \<open>Status: failed\<close> is Failed and still holds the node.
\<close>

theorem registry_outlives_ready:
  "reachable ex_stale \<and> status ex_stale = EXPERIMENT_FAILED \<and>
   nodes ex_stale = [(''node-0'', \<lparr>client_id = ''node-0'', ip_address = PStr ''10.0.0.1'',
                                    hostname = PStr ''pc1.example.net''\<rparr>)]"
  using ex_stale_reachable by (simp add: ex_stale_value ex_ready_def)

text \<open>
  C7, amended. In every reachable state a Null controller has an empty registry and no
  cached manifests, and a Ready controller has a non-empty registry. A terminate that
  changes the state makes it Null and clears both. A status refresh that ends in Null
  leaves both cleared; one that ends in Provisioning, Provisioned or Unknown leaves the
  registry as it was; one that ends in Failed leaves it as it was or empty.
\<close>

theorem registry_invariant:
  assumes "reachable s"
  shows "(status s = EXPERIMENT_NULL \<longrightarrow> nodes s = [] \<and> manifests s = None) \<and>
         (status s = EXPERIMENT_READY \<longrightarrow> nodes s \<noteq> []) \<and>
         (\<forall>env w r w1 s1. terminate env w s = (r, w1, s1) \<and> s1 \<noteq> s \<longrightarrow>
            status s1 = EXPERIMENT_NULL \<and> nodes s1 = [] \<and> manifests s1 = None) \<and>
         (\<forall>env dec w r w1 s1. get_status env dec w s = (r, w1, s1) \<longrightarrow>
            (status s1 = EXPERIMENT_NULL \<longrightarrow> nodes s1 = [] \<and> manifests s1 = None) \<and>
            (status s1 \<in> {EXPERIMENT_PROVISIONING, EXPERIMENT_PROVISIONED, EXPERIMENT_UNKNOWN}
               \<longrightarrow> nodes s1 = nodes s) \<and>
            (status s1 = EXPERIMENT_FAILED \<longrightarrow> nodes s1 = nodes s \<or> nodes s1 = []))"
proof -
  from reachable_inv [OF assms] have inv: "ctrl_inv s" .
  have t: "status s1 = EXPERIMENT_NULL \<and> nodes s1 = [] \<and> manifests s1 = None"
    if "terminate env w s = (r, w1, s1) \<and> s1 \<noteq> s" for env w r w1 s1
    using terminate_cases [of env w s r w1 s1] that by auto
  have g: "(status s1 = EXPERIMENT_NULL \<longrightarrow> nodes s1 = [] \<and> manifests s1 = None) \<and>
            (status s1 \<in> {EXPERIMENT_PROVISIONING, EXPERIMENT_PROVISIONED, EXPERIMENT_UNKNOWN}
               \<longrightarrow> nodes s1 = nodes s) \<and>
            (status s1 = EXPERIMENT_FAILED \<longrightarrow> nodes s1 = nodes s \<or> nodes s1 = [])"
    if "get_status env dec w s = (r, w1, s1)" for env dec w r w1 s1
    using get_status_refreshed [OF that] inv by (auto simp: refreshed_def ctrl_inv_def)
  from inv t g show ?thesis unfolding ctrl_inv_def by blast
qed

theorem registry_invariant_witness:
  "reachable ex_after_ready \<and> status ex_after_ready = EXPERIMENT_READY \<and> nodes ex_after_ready \<noteq> [] \<and>
   nodes (snd (snd (get_status env_failed dec_one [] ex_after_ready))) = nodes ex_after_ready"
proof -
  have st: "status ex_after_ready = EXPERIMENT_READY"
    by (simp add: ex_after_ready_value ex_ready_def)
  have run: "get_status env_failed dec_one [] ex_after_ready =
          (fst (get_status env_failed dec_one [] ex_after_ready),
           fst (snd (get_status env_failed dec_one [] ex_after_ready)),
           snd (snd (get_status env_failed dec_one [] ex_after_ready)))"
    by simp
  have f: "status (snd (snd (get_status env_failed dec_one [] ex_after_ready))) = EXPERIMENT_FAILED"
    by code_simp
  have ne: "nodes (snd (snd (get_status env_failed dec_one [] ex_after_ready))) \<noteq> []"
    by code_simp
  from registry_invariant [OF ex_after_ready_reachable] st run f ne
  show ?thesis using ex_after_ready_reachable by blast
qed

subsection \<open>Classification of a status response\<close>

text \<open>
  C2, as stated, fails in two places. A payload \<open>Status: ready\<close> does not always yield
  Ready: on a fresh controller whose manifest request is refused the state is Failed.
  And the prefixes are matched after surrounding whitespace is stripped, so the output
  \<open>  Status: failed\<close>, which does not itself start with a status prefix and holds no
  provisioning marker, yields Failed and not Unknown.
\<close>

theorem ready_text_can_fail:
  "status (snd (snd (get_status env_ready_error dec_none [] ex_fresh))) = EXPERIMENT_FAILED \<and>
   status (snd (snd (get_status env_padded_failed dec_none [] ex_fresh))) = EXPERIMENT_FAILED"
  by code_simp

text \<open>
  C2, amended. In a reachable state, for every result code and payload of the status
  request: a bad-arguments code, or the generic error code with an output that contains
  \<open>No such experiment\<close>, yields Null with registry and cached manifests cleared; any
  other code but success yields Unknown. For a success code with a dictionary payload the
  output is stripped of surrounding whitespace first. If it then starts with
  \<open>Status: ready\<close>, a controller that is Ready with a non-empty registry stays as it is;
  otherwise the manifests are fetched and parsed, and the state is Ready when that did
  not raise and the registry is non-empty afterwards, and Failed if not. If it starts with
  \<open>Status: provisioning\<close>, \<open>Status: provisioned\<close> or \<open>Status: failed\<close> the state is
  Provisioning, Provisioned or Failed; an output with none of these prefixes yields
  Provisioning when it contains \<open>UUID:\<close>, \<open>creating image\<close> or \<open>booting\<close>, and
  Unknown otherwise.
\<close>

theorem get_status_classification:
  assumes rch: "reachable s"
    and ans: "env w (Get_experiment_status (project_name s) (experiment_name s)) =
                Rpc_returns rval resp"
    and w0: "w0 = w @ [Rpc (Get_experiment_status (project_name s) (experiment_name s))]"
  shows "(rval = RESPONSE_BADARGS \<or>
          (rval = RESPONSE_ERROR \<and>
           (\<exists>kvs. resp = Resp_Dict kvs \<and> contains (output_or kvs []) ''No such experiment''))
          \<longrightarrow> get_status env dec w s =
                (Inr (), w0, s\<lparr>status := EXPERIMENT_NULL, nodes := [], manifests := None\<rparr>)) \<and>
         (rval \<noteq> RESPONSE_SUCCESS \<and> rval \<noteq> RESPONSE_BADARGS \<and>
          \<not> (rval = RESPONSE_ERROR \<and>
             (\<exists>kvs. resp = Resp_Dict kvs \<and> contains (output_or kvs []) ''No such experiment''))
          \<longrightarrow> get_status env dec w s = (Inr (), w0, s\<lparr>status := EXPERIMENT_UNKNOWN\<rparr>)) \<and>
         (\<forall>kvs out. rval = RESPONSE_SUCCESS \<and> resp = Resp_Dict kvs \<and> out = strip (output_or kvs [])
          \<longrightarrow>
            (if startswith out ''Status: ready''
             then (if status s = EXPERIMENT_READY \<and> nodes s \<noteq> []
                   then get_status env dec w s = (Inr (), w0, s)
                   else (case get_manifests env dec w0 s of
                           (Inl e, w2, s2) \<Rightarrow>
                             get_status env dec w s = (Inr (), w2, s\<lparr>status := EXPERIMENT_FAILED\<rparr>)
                         | (Inr u, w2, s2) \<Rightarrow>
                             get_status env dec w s =
                               (Inr (), w2,
                                (parse_manifests s2)
                                  \<lparr>status := (if nodes (parse_manifests s2) = []
                                              then EXPERIMENT_FAILED else EXPERIMENT_READY)\<rparr>)))
             else get_status env dec w s =
                    (Inr (), w0,
                     s\<lparr>status :=
                         (if startswith out ''Status: provisioning'' then EXPERIMENT_PROVISIONING
                          else if startswith out ''Status: provisioned'' then EXPERIMENT_PROVISIONED
                          else if startswith out ''Status: failed'' then EXPERIMENT_FAILED
                          else if contains out ''UUID:'' \<or> contains out ''creating image'' \<or>
                                  contains out ''booting''
                          then EXPERIMENT_PROVISIONING
                          else EXPERIMENT_UNKNOWN)\<rparr>)))"
proof (intro conjI impI allI)
  assume "rval = RESPONSE_BADARGS \<or>
          (rval = RESPONSE_ERROR \<and>
           (\<exists>kvs. resp = Resp_Dict kvs \<and> contains (output_or kvs []) ''No such experiment''))"
  then have ns: "no_such_experiment rval resp" by (simp add: no_such_experiment_iff)
  from reachable_inv [OF rch] have "ctrl_inv s" .
  with get_status_missing [where env=env and w=w and s=s and dec=dec, OF ans ns] w0 null_state_cleared [of s]
  show "get_status env dec w s =
          (Inr (), w0, s\<lparr>status := EXPERIMENT_NULL, nodes := [], manifests := None\<rparr>)"
    by (cases "status s = EXPERIMENT_NULL") simp_all
next
  assume "rval \<noteq> RESPONSE_SUCCESS \<and> rval \<noteq> RESPONSE_BADARGS \<and>
          \<not> (rval = RESPONSE_ERROR \<and>
             (\<exists>kvs. resp = Resp_Dict kvs \<and> contains (output_or kvs []) ''No such experiment''))"
  then have "\<not> no_such_experiment rval resp" "rval \<noteq> RESPONSE_SUCCESS"
    by (simp_all add: no_such_experiment_iff)
  from get_status_rpc_error [where env=env and w=w and s=s and dec=dec, OF ans this] w0
  show "get_status env dec w s = (Inr (), w0, s\<lparr>status := EXPERIMENT_UNKNOWN\<rparr>)" by simp
next
  fix kvs out
  assume h: "rval = RESPONSE_SUCCESS \<and> resp = Resp_Dict kvs \<and> out = strip (output_or kvs [])"
  with ans have ans': "env w (Get_experiment_status (project_name s) (experiment_name s)) =
                  Rpc_returns RESPONSE_SUCCESS (Resp_Dict kvs)" by simp
  show "if startswith out ''Status: ready''
        then (if status s = EXPERIMENT_READY \<and> nodes s \<noteq> []
              then get_status env dec w s = (Inr (), w0, s)
              else (case get_manifests env dec w0 s of
                      (Inl e, w2, s2) \<Rightarrow>
                        get_status env dec w s = (Inr (), w2, s\<lparr>status := EXPERIMENT_FAILED\<rparr>)
                    | (Inr u, w2, s2) \<Rightarrow>
                        get_status env dec w s =
                          (Inr (), w2,
                           (parse_manifests s2)
                             \<lparr>status := (if nodes (parse_manifests s2) = []
                                         then EXPERIMENT_FAILED else EXPERIMENT_READY)\<rparr>)))
        else get_status env dec w s =
               (Inr (), w0,
                s\<lparr>status :=
                    (if startswith out ''Status: provisioning'' then EXPERIMENT_PROVISIONING
                     else if startswith out ''Status: provisioned'' then EXPERIMENT_PROVISIONED
                     else if startswith out ''Status: failed'' then EXPERIMENT_FAILED
                     else if contains out ''UUID:'' \<or> contains out ''creating image'' \<or>
                             contains out ''booting''
                     then EXPERIMENT_PROVISIONING
                     else EXPERIMENT_UNKNOWN)\<rparr>)"
  proof (cases "startswith out ''Status: ready''")
    case False
    with h get_status_not_ready [where env=env and w=w and s=s and dec=dec, OF ans'] w0 show ?thesis
      by (simp add: other_new_status_def)
  next
    case True
    obtain r w1 s1 where run: "get_status env dec w s = (r, w1, s1)" by (metis prod_cases3)
    obtain rm w2 s2 where gm: "get_manifests env dec w0 s = (rm, w2, s2)" by (metis prod_cases3)
    from True h have rdy: "startswith (strip (output_or kvs [])) ''Status: ready''" by simp
    from get_status_ready [where env=env and w=w and s=s, OF ans' rdy run w0] get_manifests_cases [OF gm] gm run True
    show ?thesis by (cases rm) (auto split: if_splits)
  qed
qed

theorem get_status_classification_witness:
  "reachable ex_fresh \<and>
   get_status env_provisioning dec_none [] ex_fresh =
     (Inr (), [Rpc (Get_experiment_status ''proj'' ''exp'')],
      ex_fresh\<lparr>status := EXPERIMENT_PROVISIONING\<rparr>)"
proof -
  have ans: "env_provisioning [] (Get_experiment_status (project_name ex_fresh) (experiment_name ex_fresh)) =
          Rpc_returns RESPONSE_SUCCESS (Resp_Dict [(''output'', ''Status: provisioning, UUID: abc'')])"
    by (simp add: env_provisioning_def)
  have w0: "[Rpc (Get_experiment_status ''proj'' ''exp'')] =
          [] @ [Rpc (Get_experiment_status (project_name ex_fresh) (experiment_name ex_fresh))]"
    by (simp add: ex_fresh_def)
  have out: "strip (output_or [(''output'', ''Status: provisioning, UUID: abc'')] [])
               = ''Status: provisioning, UUID: abc''"
    by code_simp
  have p1: "\<not> startswith ''Status: provisioning, UUID: abc'' ''Status: ready''" by code_simp
  have p2: "startswith ''Status: provisioning, UUID: abc'' ''Status: provisioning''" by code_simp
  from get_status_classification [where env=env_provisioning and w="[]" and s=ex_fresh and dec=dec_none, OF ex_fresh_reachable ans w0] out p1 p2
  have "get_status env_provisioning dec_none [] ex_fresh =
     (Inr (), [Rpc (Get_experiment_status ''proj'' ''exp'')],
      ex_fresh\<lparr>status := EXPERIMENT_PROVISIONING\<rparr>)"
    by simp
  with ex_fresh_reachable show ?thesis by simp
qed

subsection \<open>What a status refresh does to the registry and the cached manifests\<close>




subsection \<open>Ready without nodes\<close>

text \<open>
  C3, as stated, fails in its last part. The reachable controller that is Failed and still
  holds a node is told \<open>Status: ready\<close>, and its manifest request returns no document
  at all: parsing is skipped, the old node stays, and \<open>start_and_wait\<close> returns Ready. And
  on a fresh controller, a \<open>ready\<close> whose manifest holds no node, followed after the
  restart by a response that the experiment does not exist, makes it return Null.
\<close>

theorem ready_without_nodes_not_failed:
  "fst (start_and_wait env_ready dec_empty [] ex_stale) = Inr EXPERIMENT_READY \<and>
   manifests (snd (snd (start_and_wait env_ready dec_empty [] ex_stale))) = Some [] \<and>
   fst (start_and_wait env_ready_then_missing dec_hollow [] ex_fresh) = Inr EXPERIMENT_NULL"
  by code_simp

text \<open>
  C3, amended. When a status response is classified Ready and the controller was not
  Ready before or its registry is empty, the manifests are requested and parsed, and the
  state is Failed if that raised or the registry is empty afterwards, and Ready if not.
  The final evaluation of \<open>start_and_wait\<close> does the same for a Ready controller with an
  empty registry. So \<open>start_and_wait\<close> returns Ready only with a non-empty registry; and on
  a controller whose registry is empty on entry, when no manifest request of the run is
  answered with a valid node (it raises, fails, or its documents hold none), the run never
  returns Ready, and it returns Failed when in addition no status response of the run
  reports the experiment as missing. Nothing is assumed of the other requests of the run,
  nor of what the control plane would have answered at another moment.
\<close>

theorem ready_without_nodes_fails:
  "(\<forall>w s kvs r w1 s1.
      env w (Get_experiment_status (project_name s) (experiment_name s)) =
        Rpc_returns RESPONSE_SUCCESS (Resp_Dict kvs) \<and>
      startswith (strip (output_or kvs [])) ''Status: ready'' \<and>
      (status s \<noteq> EXPERIMENT_READY \<or> nodes s = []) \<and>
      get_status env dec w s = (r, w1, s1) \<longrightarrow>
        w1 = w @ [Rpc (Get_experiment_status (project_name s) (experiment_name s)),
                  Rpc (Get_experiment_manifests (project_name s) (experiment_name s))] \<and>
        status s1 =
          (if isl (fst (get_manifests env dec
                     (w @ [Rpc (Get_experiment_status (project_name s) (experiment_name s))]) s))
              \<or> nodes s1 = []
           then EXPERIMENT_FAILED else EXPERIMENT_READY)) \<and>
   (\<forall>w s r w1 s1.
      status s = EXPERIMENT_READY \<and> nodes s = [] \<and>
      final_evaluation env dec w s = (r, w1, s1) \<longrightarrow>
        w1 = w @ [Rpc (Get_experiment_manifests (project_name s) (experiment_name s))] \<and>
        r = Inr (status s1) \<and>
        status s1 =
          (if isl (fst (get_manifests env dec w s)) \<or> nodes s1 = []
           then EXPERIMENT_FAILED else EXPERIMENT_READY)) \<and>
   (\<forall>w s st w1 s1.
      start_and_wait env dec w s = (Inr st, w1, s1) \<longrightarrow>
        (st = EXPERIMENT_READY \<longrightarrow> nodes s1 \<noteq> []) \<and>
        (nodes s = [] \<and> fetched_none env dec w w1 \<longrightarrow>
           st \<noteq> EXPERIMENT_READY \<and> (none_missing env w w1 \<longrightarrow> st = EXPERIMENT_FAILED)))"
proof -
  have A: "w1 = w @ [Rpc (Get_experiment_status (project_name s) (experiment_name s)),
                  Rpc (Get_experiment_manifests (project_name s) (experiment_name s))] \<and>
        status s1 =
          (if isl (fst (get_manifests env dec
                     (w @ [Rpc (Get_experiment_status (project_name s) (experiment_name s))]) s))
              \<or> nodes s1 = []
           then EXPERIMENT_FAILED else EXPERIMENT_READY)"
    if h: "env w (Get_experiment_status (project_name s) (experiment_name s)) =
        Rpc_returns RESPONSE_SUCCESS (Resp_Dict kvs) \<and>
      startswith (strip (output_or kvs [])) ''Status: ready'' \<and>
      (status s \<noteq> EXPERIMENT_READY \<or> nodes s = []) \<and>
      get_status env dec w s = (r, w1, s1)" for w s kvs r w1 s1
  proof -
    let ?w0 = "w @ [Rpc (Get_experiment_status (project_name s) (experiment_name s))]"
    from h have ans: "env w (Get_experiment_status (project_name s) (experiment_name s)) =
        Rpc_returns RESPONSE_SUCCESS (Resp_Dict kvs)"
      and rdy: "startswith (strip (output_or kvs [])) ''Status: ready''"
      and c: "\<not> (status s = EXPERIMENT_READY \<and> nodes s \<noteq> [])"
      and run: "get_status env dec w s = (r, w1, s1)" by auto
    obtain rm w2 s2 where gm: "get_manifests env dec ?w0 s = (rm, w2, s2)" by (metis prod_cases3)
    from get_status_ready [where env=env and w=w and s=s, OF ans rdy run refl] c gm
         get_manifests_cases [OF gm]
    show ?thesis by (cases rm) auto
  qed
  have B: "w1 = w @ [Rpc (Get_experiment_manifests (project_name s) (experiment_name s))] \<and>
        r = Inr (status s1) \<and>
        status s1 =
          (if isl (fst (get_manifests env dec w s)) \<or> nodes s1 = []
           then EXPERIMENT_FAILED else EXPERIMENT_READY)"
    if h: "status s = EXPERIMENT_READY \<and> nodes s = [] \<and>
      final_evaluation env dec w s = (r, w1, s1)" for w s r w1 s1
  proof -
    obtain rm w2 s2 where gm: "get_manifests env dec w s = (rm, w2, s2)" by (metis prod_cases3)
    from h gm get_manifests_cases [OF gm] show ?thesis
      by (cases rm; cases "nodes (parse_manifests s2) = []")
         (auto simp: final_evaluation_def reload_nodes_def Let_def)
  qed
  have C: "(st = EXPERIMENT_READY \<longrightarrow> nodes s1 \<noteq> []) \<and>
        (nodes s = [] \<and> fetched_none env dec w w1 \<longrightarrow>
           st \<noteq> EXPERIMENT_READY \<and> (none_missing env w w1 \<longrightarrow> st = EXPERIMENT_FAILED))"
    if run: "start_and_wait env dec w s = (Inr st, w1, s1)" for w s st w1 s1
  proof -
    from start_and_wait_cases [OF run] have se: "settled st s1" by simp
    then have r1: "st = EXPERIMENT_READY \<longrightarrow> nodes s1 \<noteq> []" by (auto simp: settled_def)
    have r2: "st \<noteq> EXPERIMENT_READY \<and> (none_missing env w w1 \<longrightarrow> st = EXPERIMENT_FAILED)"
      if z: "nodes s = [] \<and> fetched_none env dec w w1"
    proof -
      from z start_and_wait_fetched_none [OF _ _ run] have e1: "nodes s1 = []" by blast
      with se have nr: "st \<noteq> EXPERIMENT_READY" by (auto simp: settled_def)
      have "st = EXPERIMENT_FAILED" if nm: "none_missing env w w1"
        using start_and_wait_none_missing [OF nm run] se nr by (auto simp: settled_def)
      with nr show ?thesis by blast
    qed
    from r1 r2 show ?thesis by blast
  qed
  from A B C show ?thesis by blast
qed

theorem ready_without_nodes_fails_witness:
  "nodes ex_fresh = [] \<and>
   fetched_none env_fetch_raises dec_one []
     (fst (snd (start_and_wait env_fetch_raises dec_one [] ex_fresh))) \<and>
   none_missing env_fetch_raises []
     (fst (snd (start_and_wait env_fetch_raises dec_one [] ex_fresh))) \<and>
   env_fetch_raises [] (Terminate_experiment ''p'' ''n'') = Rpc_returns RESPONSE_BADARGS Resp_None \<and>
   start_and_wait env_fetch_raises dec_one [] ex_fresh =
     (Inr EXPERIMENT_FAILED, fst (snd (start_and_wait env_fetch_raises dec_one [] ex_fresh)),
      snd (snd (start_and_wait env_fetch_raises dec_one [] ex_fresh)))"
proof -
  let ?X = "start_and_wait env_fetch_raises dec_one [] ex_fresh"
  have e: "nodes ex_fresh = []" by (simp add: ex_fresh_def)
  have "\<not> isl (fst ?X)" by code_simp
  then obtain st where "fst ?X = Inr st" by (cases "fst ?X") auto
  then have st: "?X = (Inr st, fst (snd ?X), snd (snd ?X))"
    by (metis prod.collapse)
  note fn = env_fetch_raises_fetched_none [of dec_one "[]" "fst (snd ?X)"]
  note nm = env_fetch_raises_none_missing [of "[]" "fst (snd ?X)"]
  from ready_without_nodes_fails [of env_fetch_raises dec_one]
  have "start_and_wait env_fetch_raises dec_one [] ex_fresh = (Inr st, fst (snd ?X), snd (snd ?X)) \<longrightarrow>
          (st = EXPERIMENT_READY \<longrightarrow> nodes (snd (snd ?X)) \<noteq> []) \<and>
          (nodes ex_fresh = [] \<and> fetched_none env_fetch_raises dec_one [] (fst (snd ?X)) \<longrightarrow>
             st \<noteq> EXPERIMENT_READY \<and>
             (none_missing env_fetch_raises [] (fst (snd ?X)) \<longrightarrow> st = EXPERIMENT_FAILED))"
    by blast
  with st e fn nm have "st = EXPERIMENT_FAILED" by blast
  with st e fn nm show ?thesis
    by (simp add: env_fetch_raises_def)
qed

subsection \<open>Manifest parsing\<close>

text \<open>
  C8, as stated, fails on the empty list: parsing does not reset the registry first.
  With an empty list of cached documents the controller keeps the node it had, though no
  document holds a node entry.
\<close>

theorem parse_keeps_registry_without_manifests:
  "nodes (parse_manifests (ex_ready\<lparr>manifests := Some []\<rparr>)) =
     [(''node-0'', \<lparr>client_id = ''node-0'', ip_address = PStr ''10.0.0.1'',
                     hostname = PStr ''pc1.example.net''\<rparr>)]"
  by (simp add: parse_manifests_def ex_ready_def)

text \<open>
  C8, amended. With no cached documents (\<open>None\<close> or the empty list) parsing leaves the
  controller as it is. For every non-empty list of cached documents whose client
  identifiers are strings, parsing replaces the registry by the one that the
  specification describes: it holds exactly the well-formed node entries, keyed by client
  identifier, whatever the registry held before; every other entry is skipped, and
  parsing never raises.
\<close>

theorem parse_manifests_registry:
  "(manifests s = None \<or> manifests s = Some [] \<longrightarrow> parse_manifests s = s) \<and>
   (\<forall>ms. manifests s = Some ms \<and> ms \<noteq> [] \<and> string_ids ms \<longrightarrow>
      parse_manifests s = s\<lparr>nodes := spec_registry ms\<rparr> \<and>
      fst ` set (nodes (parse_manifests s)) = client_id ` set (spec_nodes ms))"
proof -
  have A: "parse_manifests s = s" if "manifests s = None \<or> manifests s = Some []"
    using that by (auto simp: parse_manifests_def)
  have B: "parse_manifests s = s\<lparr>nodes := spec_registry ms\<rparr> \<and>
      fst ` set (nodes (parse_manifests s)) = client_id ` set (spec_nodes ms)"
    if h: "manifests s = Some ms \<and> ms \<noteq> [] \<and> string_ids ms" for ms
  proof -
    from h have ids: "string_ids ms" by simp
    from parse_all_spec [OF ids, of "[]"] store_keys [of "[]" "spec_nodes ms"] h
    show ?thesis by (auto simp: parse_manifests_def spec_registry_def)
  qed
  from A B show ?thesis by blast
qed

theorem parse_manifests_registry_witness:
  "string_ids [ex_two_nodes] \<and>
   parse_manifests ex_old =
     ex_old\<lparr>nodes := [(''node-0'', \<lparr>client_id = ''node-0'', ip_address = PStr ''10.0.0.1'',
                                     hostname = PStr ''pc1.example.net''\<rparr>)]\<rparr> \<and>
   length (nodes (parse_manifests ex_old)) = 1"
proof -
  have ids: "string_ids [ex_two_nodes]" by code_simp
  have m: "manifests ex_old = Some [ex_two_nodes]" by (simp add: ex_old_def)
  have sr: "spec_registry [ex_two_nodes] =
      [(''node-0'', \<lparr>client_id = ''node-0'', ip_address = PStr ''10.0.0.1'',
                      hostname = PStr ''pc1.example.net''\<rparr>)]"
    by code_simp
  from parse_manifests_registry [of ex_old] m ids
  have "parse_manifests ex_old = ex_old\<lparr>nodes := spec_registry [ex_two_nodes]\<rparr>" by blast
  with sr ids show ?thesis by simp
qed

subsection \<open>Retries of the connection\<close>

text \<open>
  C4, as stated, fails twice. After one transient failure followed by a prompt,
  \<open>open\<close> has made two attempts, not \<open>min 1 4 = 1\<close>. And the error after the fourth
  failure names the address but no attempt count: its text says
  \<open>after multiple retries\<close>.
\<close>

theorem open_attempts_after_one_failure:
  "attempts (fst (snd (open_ssh env_eof_once [] ex_ssh))) = 2 \<and>
   fst (open_ssh env_eof_once [] ex_ssh) = Inr () \<and>
   fst (open_ssh env_always_eof [] ex_ssh) =
     Inl (ConnectionError ''Could not connect via SSH to 10.0.0.1 after multiple retries'') \<and>
   \<not> contains ''Could not connect via SSH to 10.0.0.1 after multiple retries'' ''4''"
  by code_simp

text \<open>
  C4, amended. When the first \<open>k\<close> attempts fail in a transient way, each failed attempt
  closes the child by force, and a sleep of 2, 4 and 8 seconds follows the first, second
  and third. With \<open>k \<ge> 4\<close> \<open>open\<close> makes exactly four attempts and raises a
  \<open>ConnectionError\<close> whose message names the address. With \<open>k < 4\<close> and a prompt
  at the next attempt it makes exactly \<open>k + 1\<close> attempts and returns.
\<close>

theorem open_retries:
  assumes "transient_rounds env (ssh_command s) 0 w (min k 4)"
  shows "(4 \<le> k \<longrightarrow>
            open_ssh env w s =
              (Inl (ConnectionError (''Could not connect via SSH to '' @ host_address s
                                       @ '' after multiple retries'')),
               w @ failed_rounds (ssh_command s) 0 4, s\<lparr>ssh := Some (Child True)\<rparr>)) \<and>
         (k < 4 \<and> spawns env (w @ failed_rounds (ssh_command s) 0 k) \<and>
          expects env (w @ failed_rounds (ssh_command s) 0 k @ [Spawn (ssh_command s)]) = Matched 0
          \<longrightarrow>
            open_ssh env w s =
              (Inr (), w @ failed_rounds (ssh_command s) 0 k @ [Spawn (ssh_command s), Expect 7 25],
               s\<lparr>ssh := Some (Child False)\<rparr>) \<and>
            attempts (fst (snd (open_ssh env w s))) = attempts w + (k + 1)) \<and>
         attempts (w @ failed_rounds (ssh_command s) 0 4) = attempts w + 4 \<and>
         failed_rounds (ssh_command s) 0 4 =
           [Spawn (ssh_command s), Expect 7 25, Close_force, Backoff 2,
            Spawn (ssh_command s), Expect 7 25, Close_force, Backoff 4,
            Spawn (ssh_command s), Expect 7 25, Close_force, Backoff 8,
            Spawn (ssh_command s), Expect 7 25, Close_force]"
proof -
  let ?cmd = "ssh_command s"
  have A: "open_ssh env w s =
              (Inl (ConnectionError (''Could not connect via SSH to '' @ host_address s
                                       @ '' after multiple retries'')),
               w @ failed_rounds ?cmd 0 4, s\<lparr>ssh := Some (Child True)\<rparr>)" if "4 \<le> k"
  proof -
    from that have "min k 4 = 4" by simp
    with assms have tr: "transient_rounds env ?cmd 0 w 4" by simp
    have "0 + 4 \<le> max_retries" by (simp add: max_retries_def)
    from open_loop_transient [OF this tr]
    show ?thesis by (simp add: open_ssh_def max_retries_def del: failed_rounds.simps)
  qed
  have B: "open_ssh env w s =
              (Inr (), w @ failed_rounds ?cmd 0 k @ [Spawn ?cmd, Expect 7 25],
               s\<lparr>ssh := Some (Child False)\<rparr>) \<and>
            attempts (fst (snd (open_ssh env w s))) = attempts w + (k + 1)"
    if h: "k < 4 \<and> spawns env (w @ failed_rounds ?cmd 0 k) \<and>
          expects env (w @ failed_rounds ?cmd 0 k @ [Spawn ?cmd]) = Matched 0"
  proof -
    let ?s1 = "if k = 0 then s else s\<lparr>ssh := Some (Child True)\<rparr>"
    let ?w1 = "w @ failed_rounds ?cmd 0 k"
    from h have "min k 4 = k" by simp
    with assms have tr: "transient_rounds env ?cmd 0 w k" by simp
    from h have le: "0 + k \<le> max_retries" and lt: "0 + k < max_retries"
      by (simp_all add: max_retries_def)
    have c1: "ssh_command ?s1 = ?cmd" by simp
    from h have sp: "spawns env ?w1" by simp
    from h have pr: "expects env (?w1 @ [Spawn (ssh_command ?s1)]) = Matched 0"
      unfolding c1 by (simp del: failed_rounds.simps)
    have "open_loop env 0 w s = open_loop env (0 + k) ?w1 ?s1"
      by (rule open_loop_transient [OF le tr])
    also have "\<dots> = (Inr (), ?w1 @ [Spawn (ssh_command ?s1), Expect 7 25],
                      ?s1\<lparr>ssh := Some (Child False)\<rparr>)"
      by (rule open_loop_returned [OF lt attempt_prompt [OF sp pr]])
    finally have "open_ssh env w s =
              (Inr (), w @ failed_rounds ?cmd 0 k @ [Spawn ?cmd, Expect 7 25],
               s\<lparr>ssh := Some (Child False)\<rparr>)"
      unfolding c1 by (simp add: open_ssh_def del: failed_rounds.simps)
    then show ?thesis by (simp del: failed_rounds.simps)
  qed
  have C: "failed_rounds ?cmd 0 4 =
           [Spawn ?cmd, Expect 7 25, Close_force, Backoff 2,
            Spawn ?cmd, Expect 7 25, Close_force, Backoff 4,
            Spawn ?cmd, Expect 7 25, Close_force, Backoff 8,
            Spawn ?cmd, Expect 7 25, Close_force]"
    by (simp add: numeral_eq_Suc max_retries_def)
  have D: "attempts (w @ failed_rounds ?cmd 0 4) = attempts w + 4" by simp
  from A B C D show ?thesis by blast
qed

theorem open_retries_witness:
  "transient_rounds env_always_eof (ssh_command ex_ssh) 0 [] (min 7 4) \<and>
   open_ssh env_always_eof [] ex_ssh =
     (Inl (ConnectionError ''Could not connect via SSH to 10.0.0.1 after multiple retries''),
      failed_rounds (ssh_command ex_ssh) 0 4, ex_ssh\<lparr>ssh := Some (Child True)\<rparr>) \<and>
   transient_rounds env_eof_once (ssh_command ex_ssh) 0 [] (min 1 4) \<and>
   open_ssh env_eof_once [] ex_ssh =
     (Inr (), failed_rounds (ssh_command ex_ssh) 0 1 @ [Spawn (ssh_command ex_ssh), Expect 7 25],
      ex_ssh\<lparr>ssh := Some (Child False)\<rparr>)"
proof -
  have t1: "transient_rounds env_always_eof (ssh_command ex_ssh) 0 [] (min 7 4)" by code_simp
  have t2: "transient_rounds env_eof_once (ssh_command ex_ssh) 0 [] (min 1 4)" by code_simp
  have s2: "spawns env_eof_once ([] @ failed_rounds (ssh_command ex_ssh) 0 1)"
    by (simp add: env_eof_once_def)
  have p2: "expects env_eof_once ([] @ failed_rounds (ssh_command ex_ssh) 0 1
              @ [Spawn (ssh_command ex_ssh)]) = Matched 0"
    by code_simp
  have h: "host_address ex_ssh = ''10.0.0.1''" by (simp add: ex_ssh_def)
  from open_retries [OF t1] h
  have r1: "open_ssh env_always_eof [] ex_ssh =
     (Inl (ConnectionError ''Could not connect via SSH to 10.0.0.1 after multiple retries''),
      failed_rounds (ssh_command ex_ssh) 0 4, ex_ssh\<lparr>ssh := Some (Child True)\<rparr>)"
    by (simp del: failed_rounds.simps)
  from open_retries [OF t2] s2 p2
  have r2: "open_ssh env_eof_once [] ex_ssh =
     (Inr (), failed_rounds (ssh_command ex_ssh) 0 1 @ [Spawn (ssh_command ex_ssh), Expect 7 25],
      ex_ssh\<lparr>ssh := Some (Child False)\<rparr>)"
    by (simp del: failed_rounds.simps)
  from t1 t2 r1 r2 show ?thesis by blast
qed

subsection \<open>Fatal authentication failures\<close>

text \<open>
  C5, as stated, fails for a user password prompt that comes after the passphrase has been
  sent. The wait there knows two patterns only, the shell prompt and a permission denial;
  the password prompt matches neither, the wait ends with \<open>pexpect.TIMEOUT\<close>, the handler
  of \<open>ExceptionPexpect\<close> closes the child, and the attempt is retried. With a remote end
  that does so every time, \<open>open\<close> makes four attempts and raises \<open>ConnectionError\<close>.
\<close>

theorem password_prompt_after_passphrase_retried:
  "expects env_password_after_passphrase
     [Spawn (ssh_command ex_keyed), Expect 7 25, Sendline ''secret'']
     = passphrase_patterns Password_prompt \<and>
   passphrase_patterns Password_prompt = Expect_raises \<and>
   fst (open_ssh env_password_after_passphrase [] ex_keyed) =
     Inl (ConnectionError ''Could not connect via SSH to 10.0.0.1 after multiple retries'') \<and>
   attempts (fst (snd (open_ssh env_password_after_passphrase [] ex_keyed))) = 4"
  by code_simp

text \<open>
  C5, amended. At whatever attempt, and whatever made the earlier attempts retry, when the
  first wait of the attempt meets a user password prompt or a permission denial, \<open>open\<close>
  closes the child and raises at once: \<open>ValueError\<close> for the password prompt,
  \<open>ConnectionRefusedError\<close> for the denial. The same two answers to the wait after a host
  key confirmation raise as well. In each case the trace ends with that attempt: no
  further process is spawned and no sleep follows. A user password prompt that comes
  after the passphrase has been sent (at the first prompt or after a host key
  confirmation) is not fatal: the child is closed and \<open>open\<close> goes on with the next round
  of its loop, after the sleep if rounds are left.
\<close>

theorem open_fatal_authentication:
  assumes "loop_state env w s retry_count = Some (w1, s1)" and "retry_count < max_retries"
    and "spawns env w1" and "cmd = ssh_command s"
  shows "(expects env (w1 @ [Spawn cmd]) = expected_patterns Password_prompt \<longrightarrow>
            open_ssh env w s =
              (Inl (ValueError ''SSH requested user password, unexpected for key authentication.''),
               w1 @ [Spawn cmd, Expect 7 25, Close_force], s\<lparr>ssh := Some (Child True)\<rparr>)) \<and>
         (expects env (w1 @ [Spawn cmd]) = expected_patterns Denial \<longrightarrow>
            open_ssh env w s =
              (Inl (ConnectionRefusedError ''SSH Permission Denied (publickey)''),
               w1 @ [Spawn cmd, Expect 7 25, Close_force], s\<lparr>ssh := Some (Child True)\<rparr>)) \<and>
         (expects env (w1 @ [Spawn cmd]) = expected_patterns Host_key_question \<and>
          expects env (w1 @ [Spawn cmd, Expect 7 25, Sendline ''yes''])
            = expected_patterns Password_prompt \<longrightarrow>
            open_ssh env w s =
              (Inl (ValueError ''SSH requested user password after host key confirmation.''),
               w1 @ [Spawn cmd, Expect 7 25, Sendline ''yes'', Expect 7 15],
               s\<lparr>ssh := Some (Child False)\<rparr>)) \<and>
         (expects env (w1 @ [Spawn cmd]) = expected_patterns Host_key_question \<and>
          expects env (w1 @ [Spawn cmd, Expect 7 25, Sendline ''yes''])
            = expected_patterns Denial \<longrightarrow>
            open_ssh env w s =
              (Inl (ConnectionRefusedError ''Permission denied after host key confirmation.''),
               w1 @ [Spawn cmd, Expect 7 25, Sendline ''yes'', Expect 7 15],
               s\<lparr>ssh := Some (Child False)\<rparr>)) \<and>
         (expects env (w1 @ [Spawn cmd]) = expected_patterns Passphrase_prompt \<and>
          password s = Some pw \<and> pw \<noteq> [] \<and>
          expects env (w1 @ [Spawn cmd, Expect 7 25, Sendline pw])
            = passphrase_patterns Password_prompt \<longrightarrow>
            open_ssh env w s =
              open_loop env (retry_count + 1)
                (w1 @ [Spawn cmd, Expect 7 25, Sendline pw, Expect 2 15, Close_force]
                    @ (if retry_count + 1 < max_retries
                       then [Backoff (2 ^ (retry_count + 1))] else []))
                (s\<lparr>ssh := Some (Child True)\<rparr>)) \<and>
         (expects env (w1 @ [Spawn cmd]) = expected_patterns Host_key_question \<and>
          expects env (w1 @ [Spawn cmd, Expect 7 25, Sendline ''yes''])
            = expected_patterns Passphrase_prompt \<and>
          password s = Some pw \<and> pw \<noteq> [] \<and>
          expects env (w1 @ [Spawn cmd, Expect 7 25, Sendline ''yes'', Expect 7 15, Sendline pw])
            = passphrase_patterns Password_prompt \<longrightarrow>
            open_ssh env w s =
              open_loop env (retry_count + 1)
                (w1 @ [Spawn cmd, Expect 7 25, Sendline ''yes'', Expect 7 15, Sendline pw,
                       Expect 2 15, Close_force]
                    @ (if retry_count + 1 < max_retries
                       then [Backoff (2 ^ (retry_count + 1))] else []))
                (s\<lparr>ssh := Some (Child True)\<rparr>))"
proof -
  note lt = assms(2) and sp = assms(3)
  from loop_state_open_loop [OF assms(1)]
  have run: "open_ssh env w s = open_loop env retry_count w1 s1" by (simp add: open_ssh_def)
  note k = kept_update [OF loop_state_keeps [OF assms(1)]]
  from k(2) assms(4) have cmd: "ssh_command s1 = cmd" by simp
  have A: "open_ssh env w s =
              (Inl (ValueError ''SSH requested user password, unexpected for key authentication.''),
               w1 @ [Spawn cmd, Expect 7 25, Close_force], s\<lparr>ssh := Some (Child True)\<rparr>)"
    if "expects env (w1 @ [Spawn cmd]) = expected_patterns Password_prompt"
    using open_loop_raised [OF lt attempt_password [of env w1 s1]] that sp run cmd k(1) by simp
  have B: "open_ssh env w s =
              (Inl (ConnectionRefusedError ''SSH Permission Denied (publickey)''),
               w1 @ [Spawn cmd, Expect 7 25, Close_force], s\<lparr>ssh := Some (Child True)\<rparr>)"
    if "expects env (w1 @ [Spawn cmd]) = expected_patterns Denial"
    using open_loop_raised [OF lt attempt_denied [of env w1 s1]] that sp run cmd k(1) by simp
  have C: "open_ssh env w s =
              (Inl (ValueError ''SSH requested user password after host key confirmation.''),
               w1 @ [Spawn cmd, Expect 7 25, Sendline ''yes'', Expect 7 15],
               s\<lparr>ssh := Some (Child False)\<rparr>)"
    if "expects env (w1 @ [Spawn cmd]) = expected_patterns Host_key_question \<and>
        expects env (w1 @ [Spawn cmd, Expect 7 25, Sendline ''yes''])
          = expected_patterns Password_prompt"
    using open_loop_raised [OF lt attempt_host_key_password [of env w1 s1]] that sp run cmd k(1)
    by simp
  have D: "open_ssh env w s =
              (Inl (ConnectionRefusedError ''Permission denied after host key confirmation.''),
               w1 @ [Spawn cmd, Expect 7 25, Sendline ''yes'', Expect 7 15],
               s\<lparr>ssh := Some (Child False)\<rparr>)"
    if "expects env (w1 @ [Spawn cmd]) = expected_patterns Host_key_question \<and>
        expects env (w1 @ [Spawn cmd, Expect 7 25, Sendline ''yes''])
          = expected_patterns Denial"
    using open_loop_raised [OF lt attempt_host_key_denied [of env w1 s1]] that sp run cmd k(1)
    by simp
  have E: "open_ssh env w s =
              open_loop env (retry_count + 1)
                (w1 @ [Spawn cmd, Expect 7 25, Sendline pw, Expect 2 15, Close_force]
                    @ (if retry_count + 1 < max_retries
                       then [Backoff (2 ^ (retry_count + 1))] else []))
                (s\<lparr>ssh := Some (Child True)\<rparr>)"
    if h: "expects env (w1 @ [Spawn cmd]) = expected_patterns Passphrase_prompt \<and>
          password s = Some pw \<and> pw \<noteq> [] \<and>
          expects env (w1 @ [Spawn cmd, Expect 7 25, Sendline pw])
            = passphrase_patterns Password_prompt"
  proof -
    from h cmd k(3) have "attempt env w1 s1 =
           (Retry, w1 @ [Spawn (ssh_command s1), Expect 7 25, Sendline pw, Expect 2 15, Close_force],
            s1\<lparr>ssh := Some (Child True)\<rparr>)"
      by (intro attempt_passphrase_unanswered sp) simp_all
    from open_loop_retry [OF lt this] run cmd k(1) show ?thesis by simp
  qed
  have F: "open_ssh env w s =
              open_loop env (retry_count + 1)
                (w1 @ [Spawn cmd, Expect 7 25, Sendline ''yes'', Expect 7 15, Sendline pw,
                       Expect 2 15, Close_force]
                    @ (if retry_count + 1 < max_retries
                       then [Backoff (2 ^ (retry_count + 1))] else []))
                (s\<lparr>ssh := Some (Child True)\<rparr>)"
    if h: "expects env (w1 @ [Spawn cmd]) = expected_patterns Host_key_question \<and>
          expects env (w1 @ [Spawn cmd, Expect 7 25, Sendline ''yes''])
            = expected_patterns Passphrase_prompt \<and>
          password s = Some pw \<and> pw \<noteq> [] \<and>
          expects env (w1 @ [Spawn cmd, Expect 7 25, Sendline ''yes'', Expect 7 15, Sendline pw])
            = passphrase_patterns Password_prompt"
  proof -
    from h cmd k(3) have "attempt env w1 s1 =
           (Retry, w1 @ [Spawn (ssh_command s1), Expect 7 25, Sendline ''yes'', Expect 7 15,
                        Sendline pw, Expect 2 15, Close_force],
            s1\<lparr>ssh := Some (Child True)\<rparr>)"
      by (intro attempt_host_key_passphrase_unanswered sp) simp_all
    from open_loop_retry [OF lt this] run cmd k(1) show ?thesis by simp
  qed
  from A B C D E F show ?thesis by blast
qed

theorem open_fatal_authentication_witness:
  "\<not> spawns env_no_spawn_then_denied [] \<and>
   loop_state env_no_spawn_then_denied [] ex_ssh 1
     = Some ([Spawn (ssh_command ex_ssh), Backoff 2], ex_ssh) \<and>
   1 < max_retries \<and>
   spawns env_no_spawn_then_denied [Spawn (ssh_command ex_ssh), Backoff 2] \<and>
   open_ssh env_no_spawn_then_denied [] ex_ssh =
     (Inl (ConnectionRefusedError ''SSH Permission Denied (publickey)''),
      [Spawn (ssh_command ex_ssh), Backoff 2, Spawn (ssh_command ex_ssh), Expect 7 25, Close_force],
      ex_ssh\<lparr>ssh := Some (Child True)\<rparr>) \<and>
   loop_state env_password_after_passphrase [] ex_keyed 0 = Some ([], ex_keyed) \<and>
   spawns env_password_after_passphrase [] \<and>
   open_ssh env_password_after_passphrase [] ex_keyed =
     open_loop env_password_after_passphrase 1
       [Spawn (ssh_command ex_keyed), Expect 7 25, Sendline ''secret'', Expect 2 15, Close_force,
        Backoff 2]
       (ex_keyed\<lparr>ssh := Some (Child True)\<rparr>)"
proof -
  let ?cmd = "ssh_command ex_ssh"
  have n: "\<not> spawns env_no_spawn_then_denied []" by (simp add: env_no_spawn_then_denied_def)
  have l: "loop_state env_no_spawn_then_denied [] ex_ssh 1 = Some ([Spawn ?cmd, Backoff 2], ex_ssh)"
    by code_simp
  have m: "1 < max_retries" by (simp add: max_retries_def)
  have sp: "spawns env_no_spawn_then_denied [Spawn ?cmd, Backoff 2]"
    by (simp add: env_no_spawn_then_denied_def)
  have d: "expects env_no_spawn_then_denied ([Spawn ?cmd, Backoff 2] @ [Spawn ?cmd])
             = expected_patterns Denial"
    by (simp add: env_no_spawn_then_denied_def)
  from open_fatal_authentication [OF l m sp refl] d
  have r: "open_ssh env_no_spawn_then_denied [] ex_ssh =
     (Inl (ConnectionRefusedError ''SSH Permission Denied (publickey)''),
      [Spawn ?cmd, Backoff 2, Spawn ?cmd, Expect 7 25, Close_force],
      ex_ssh\<lparr>ssh := Some (Child True)\<rparr>)"
    by simp
  let ?kc = "ssh_command ex_keyed"
  have l2: "loop_state env_password_after_passphrase [] ex_keyed 0 = Some ([], ex_keyed)" by simp
  have m2: "0 < max_retries" by (simp add: max_retries_def)
  have sp2: "spawns env_password_after_passphrase []" by (simp add: env_password_after_passphrase_def)
  have p1: "expects env_password_after_passphrase ([] @ [Spawn ?kc]) = expected_patterns Passphrase_prompt"
    by (simp add: env_password_after_passphrase_def)
  have p2: "expects env_password_after_passphrase ([] @ [Spawn ?kc, Expect 7 25, Sendline ''secret''])
              = passphrase_patterns Password_prompt"
    by (simp add: env_password_after_passphrase_def)
  have pw: "password ex_keyed = Some ''secret''" by (simp add: ex_keyed_def)
  from open_fatal_authentication [OF l2 m2 sp2 refl, of "''secret''"] p1 p2 pw
  have r2: "open_ssh env_password_after_passphrase [] ex_keyed =
     open_loop env_password_after_passphrase 1
       [Spawn ?kc, Expect 7 25, Sendline ''secret'', Expect 2 15, Close_force, Backoff 2]
       (ex_keyed\<lparr>ssh := Some (Child True)\<rparr>)"
    by (simp add: max_retries_def)
  from n l m sp r l2 sp2 r2 show ?thesis by blast
qed

subsection \<open>Construction of a session\<close>

text \<open>
  C9. When the environment variable \<open>CERT\<close> is unset or empty, or names a path that does
  not exist, the construction of a session fails: with \<open>ValueError\<close> for the missing
  variable (or for a missing user name, which is checked first) and with
  \<open>FileNotFoundError\<close> for the missing file. No session value results, so there is
  nothing that \<open>open\<close> could spawn a process for.
\<close>

theorem init_ssh_requires_key:
  assumes "environ ''CERT'' = None \<or> environ ''CERT'' = Some [] \<or>
           (\<exists>p. environ ''CERT'' = Some p \<and> \<not> path_exists p)"
  shows "\<exists>e. init_ssh environ path_exists ip user_arg pr = Inl e \<and>
             (e = ValueError ''Username not provided and USER environment variable not set'' \<or>
              e = ValueError ''CERT environment variable pointing to SSH key is required'' \<or>
              (\<exists>p. environ ''CERT'' = Some p \<and> p \<noteq> [] \<and> \<not> path_exists p \<and>
                   e = FileNotFoundError (''SSH key file not found: '' @ p)))"
  using assms
  by (auto simp: init_ssh_def split: option.splits list.splits sum.splits)

theorem init_ssh_requires_key_witness:
  "init_ssh [''USER'' \<mapsto> ''alice''] (\<lambda>p. False) ''10.0.0.1'' None ''$'' =
     Inl (ValueError ''CERT environment variable pointing to SSH key is required'') \<and>
   init_ssh [''USER'' \<mapsto> ''alice'', ''CERT'' \<mapsto> ''/keys/id_rsa''] (\<lambda>p. False) ''10.0.0.1'' None ''$'' =
     Inl (FileNotFoundError ''SSH key file not found: /keys/id_rsa'')"
proof -
  have a: "[''USER'' \<mapsto> ''alice''] ''CERT'' = None \<or> [''USER'' \<mapsto> ''alice''] ''CERT'' = Some [] \<or>
           (\<exists>p. [''USER'' \<mapsto> ''alice''] ''CERT'' = Some p \<and> \<not> (\<lambda>p. False) p)"
    by simp
  have u: "init_ssh [''USER'' \<mapsto> ''alice''] (\<lambda>p. False) ''10.0.0.1'' None ''$'' \<noteq>
             Inl (ValueError ''Username not provided and USER environment variable not set'')"
    by (simp add: init_ssh_def)
  from init_ssh_requires_key [where environ="[''USER'' \<mapsto> ''alice'']" and path_exists="\<lambda>p. False"
         and ip="''10.0.0.1''" and user_arg=None and pr="''$''", OF a] u
  have r1: "init_ssh [''USER'' \<mapsto> ''alice''] (\<lambda>p. False) ''10.0.0.1'' None ''$'' =
     Inl (ValueError ''CERT environment variable pointing to SSH key is required'')"
    by auto
  have r2: "init_ssh [''USER'' \<mapsto> ''alice'', ''CERT'' \<mapsto> ''/keys/id_rsa''] (\<lambda>p. False)
              ''10.0.0.1'' None ''$'' =
     Inl (FileNotFoundError ''SSH key file not found: /keys/id_rsa'')"
    by (simp add: init_ssh_def)
  from r1 r2 show ?thesis by simp
qed

end
